theory Spec2Isabelle
  imports Complex_Main "HOL-Library.Multiset"
begin

section \<open>Modelling conventions\<close>

text \<open>
  The development embeds the Go package \<^verbatim>\<open>deepsearch\<close> (file \<^verbatim>\<open>deepsearch/analyser.go\<close>),
  the method \<^verbatim>\<open>GetPolygonAggregate\<close> of the package \<^verbatim>\<open>service\<close> that it calls,
  and the earnings/big-money handler (\<^verbatim>\<open>GetEarningsWithBigMoney\<close>,
  \<^verbatim>\<open>analyzeTickerBigMoney\<close>).

  \<^item> A Go \<^verbatim>\<open>float64\<close> is modelled as a \<^typ>\<open>real\<close>: the arithmetic is exact, and
    rounding, infinities and NaN are outside the model. Every statement below about a
    computed floating-point value is therefore a statement about the algorithm in exact
    arithmetic. The one exception is the cumulative VWAP, whose value depends on the
    rounding: the lines that compute it are embedded a second time over IEEE 754
    binary64 values, in the section on the running VWAP in float64.
  \<^item> A Go \<^verbatim>\<open>string\<close> is a \<^typ>\<open>string\<close> (a list of bytes).
  \<^item> A Go \<^verbatim>\<open>int\<close> is an \<^typ>\<open>int\<close> or a \<^typ>\<open>nat\<close>; every integer below is a length
    or a count bounded by a length, so no 64-bit wrap-around can occur.
  \<^item> A pointer field that is either nil or set (\<^verbatim>\<open>*float64\<close>, \<^verbatim>\<open>*string\<close>) is an
    \<^typ>\<open>'a option\<close>.
  \<^item> Functions of the Go standard library and of third-party packages
    (\<^verbatim>\<open>fmt.Sprintf\<close>, \<^verbatim>\<open>time.Parse\<close>, \<^verbatim>\<open>time.Format\<close>, \<^verbatim>\<open>os.Getenv\<close>, \<^verbatim>\<open>http.Get\<close>,
    \<^verbatim>\<open>json.Unmarshal\<close>, the database handle, the market-data client's \<^verbatim>\<open>ListAggs\<close>) are
    parameters of the model, collected in environment records; nothing is assumed about
    them.
\<close>

section \<open>The decision aggregator\<close>

subsection \<open>Library functions on strings\<close>

text \<open>
  \<^verbatim>\<open>strings.ToUpper\<close>. On a string made of ASCII bytes only it maps \<^verbatim>\<open>'a'..'z'\<close> to
  \<^verbatim>\<open>'A'..'Z'\<close> byte by byte and leaves every other byte alone. On any other string it
  decodes UTF-8 and maps each rune through the Unicode tables of the library; that
  mapping is the parameter \<open>unicode_map\<close>. Every message built by \<^verbatim>\<open>generateSignals\<close> is
  made of ASCII bytes.
\<close>

definition upper_byte :: "char \<Rightarrow> char" where
  "upper_byte c =
     (if 97 \<le> (of_char c :: nat) \<and> (of_char c :: nat) \<le> 122
      then char_of ((of_char c :: nat) - 32) else c)"

definition is_ascii :: "string \<Rightarrow> bool" where
  "is_ascii s = list_all (\<lambda>c. (of_char c :: nat) < 128) s"

definition ToUpper :: "(string \<Rightarrow> string) \<Rightarrow> string \<Rightarrow> string" where
  "ToUpper unicode_map s = (if is_ascii s then map upper_byte s else unicode_map s)"

text \<open>\<^verbatim>\<open>strings.Contains(s, substr)\<close>: some suffix of \<open>s\<close> starts with \<open>substr\<close>.\<close>

fun HasPrefix :: "string \<Rightarrow> string \<Rightarrow> bool" where
  "HasPrefix s [] = True"
| "HasPrefix [] (p # ps) = False"
| "HasPrefix (c # cs) (p # ps) = (c = p \<and> HasPrefix cs ps)"

fun Contains :: "string \<Rightarrow> string \<Rightarrow> bool" where
  "Contains [] substr = (substr = [])"
| "Contains (c # cs) substr = (HasPrefix (c # cs) substr \<or> Contains cs substr)"

subsection \<open>\<^verbatim>\<open>getFinalDecisionFromSignals\<close>\<close>

text \<open>
  \<^verbatim>\<open>counts\<close> is a \<^verbatim>\<open>map[string]int\<close>. Reading a missing key gives 0, and
  \<^verbatim>\<open>counts[k]++\<close> stores the read value plus one.
\<close>

type_synonym counts = "string \<rightharpoonup> int"

definition lookup0 :: "counts \<Rightarrow> string \<Rightarrow> int" where
  "lookup0 counts k = (case counts k of None \<Rightarrow> 0 | Some v \<Rightarrow> v)"

definition incr :: "counts \<Rightarrow> string \<Rightarrow> counts" where
  "incr counts k = counts(k \<mapsto> lookup0 counts k + 1)"

definition initial_counts :: counts where
  "initial_counts = [''BUY'' \<mapsto> 0, ''SELL'' \<mapsto> 0, ''STRADDLE'' \<mapsto> 0, ''HOLD'' \<mapsto> 0]"

text \<open>The body of the first loop: the \<^verbatim>\<open>switch\<close> takes the first case that holds.\<close>

definition count_signal :: "(string \<Rightarrow> string) \<Rightarrow> counts \<Rightarrow> string \<Rightarrow> counts" where
  "count_signal unicode_map counts signal =
     (let s = ToUpper unicode_map signal in
      if Contains s ''CALL'' \<or> Contains s ''UP'' \<or> Contains s ''BUY''
        then incr counts ''BUY''
      else if Contains s ''PUT'' \<or> Contains s ''DOWN'' \<or> Contains s ''SELL''
        then incr counts ''SELL''
      else if Contains s ''STRADDLE''
        then incr counts ''STRADDLE''
      else incr counts ''HOLD'')"

definition count_signals :: "(string \<Rightarrow> string) \<Rightarrow> string list \<Rightarrow> counts" where
  "count_signals unicode_map signals = foldl (count_signal unicode_map) initial_counts signals"

text \<open>
  The second loop, \<^verbatim>\<open>for k, v := range counts\<close>, visits the keys of the map in an order
  that Go leaves unspecified. The order is the list \<open>ks\<close>; the pair is
  \<^verbatim>\<open>(final, maxCount)\<close>.
\<close>

fun scan_max :: "counts \<Rightarrow> string list \<Rightarrow> string \<times> int \<Rightarrow> string \<times> int" where
  "scan_max counts [] (final, maxCount) = (final, maxCount)"
| "scan_max counts (k # ks) (final, maxCount) =
     (if lookup0 counts k > maxCount then scan_max counts ks (k, lookup0 counts k)
      else scan_max counts ks (final, maxCount))"

definition getFinalDecisionFromSignals ::
  "(string \<Rightarrow> string) \<Rightarrow> string list \<Rightarrow> string list \<Rightarrow> string" where
  "getFinalDecisionFromSignals unicode_map order signals =
     (let counts = count_signals unicode_map signals
      in fst (scan_max counts order (''HOLD'', lookup0 counts ''HOLD'')))"

subsection \<open>The classification as the specification words it\<close>

text \<open>
  A message contains a keyword case-insensitively when one of its substrings equals the
  keyword up to the case of its letters. The bucket of a message is the first of BUY,
  SELL, STRADDLE whose keywords it contains, and HOLD when there is none.
\<close>

definition contains_ci :: "string \<Rightarrow> string \<Rightarrow> bool" where
  "contains_ci msg kw = (\<exists>p w q. msg = p @ w @ q \<and> map upper_byte w = map upper_byte kw)"

definition bucket_of :: "string \<Rightarrow> string" where
  "bucket_of msg =
     (if contains_ci msg ''CALL'' \<or> contains_ci msg ''UP'' \<or> contains_ci msg ''BUY''
        then ''BUY''
      else if contains_ci msg ''PUT'' \<or> contains_ci msg ''DOWN'' \<or> contains_ci msg ''SELL''
        then ''SELL''
      else if contains_ci msg ''STRADDLE''
        then ''STRADDLE''
      else ''HOLD'')"

definition bucket_count :: "string list \<Rightarrow> string \<Rightarrow> int" where
  "bucket_count signals k = int (length (filter (\<lambda>m. bucket_of m = k) signals))"

text \<open>The key that the \<^verbatim>\<open>switch\<close> of the first loop increments for a message.\<close>

definition switch_key :: "(string \<Rightarrow> string) \<Rightarrow> string \<Rightarrow> string" where
  "switch_key unicode_map signal =
     (let s = ToUpper unicode_map signal in
      if Contains s ''CALL'' \<or> Contains s ''UP'' \<or> Contains s ''BUY'' then ''BUY''
      else if Contains s ''PUT'' \<or> Contains s ''DOWN'' \<or> Contains s ''SELL'' then ''SELL''
      else if Contains s ''STRADDLE'' then ''STRADDLE''
      else ''HOLD'')"

section \<open>The bar enricher\<close>

subsection \<open>Data\<close>

text \<open>
  The fields of the market-data client's aggregate (\<^verbatim>\<open>polygonmodels.Agg\<close>) that the code
  reads. The timestamp is in milliseconds; the conversion through \<^verbatim>\<open>UnixMilli\<close> and back
  keeps it. \<^verbatim>\<open>Transactions\<close> is an integer there.
\<close>

record Agg =
  agg_Timestamp :: int
  agg_Open :: real
  agg_Close :: real
  agg_High :: real
  agg_Low :: real
  agg_Volume :: real
  agg_Transactions :: int
  agg_VWAP :: real

record EnhancedBar =
  Timestamp :: int
  Open :: real
  Close :: real
  High :: real
  Low :: real
  Volume :: real
  Transactions :: real
  CumulativeVWAP :: real
  VolumeZScore :: real
  IsDoji :: bool
  BearishEngulfing :: bool
  BullishEngulfing :: bool
  InstitutionalFlow :: bool
  ATR :: real
  VWAP :: real

text \<open>A run-time panic of the Go program.\<close>

datatype panic = IndexOutOfRange

subsection \<open>Helper functions\<close>

text \<open>
  \<^verbatim>\<open>calculateATR(ranges, period)\<close>. The only call passes the period 14; a period is a
  \<^typ>\<open>nat\<close> here, so the slice \<^verbatim>\<open>ranges[len(ranges)-period:]\<close> is always in range once the
  guard has passed.
\<close>

definition calculateATR :: "real list \<Rightarrow> nat \<Rightarrow> real" where
  "calculateATR rs period =
     (if length rs < period then 0
      else foldl (\<lambda>sum r. sum + r) 0 (drop (length rs - period) rs) / real period)"

text \<open>\<^verbatim>\<open>volumeZScore(volumes, lookback)\<close>; \<^verbatim>\<open>math.Pow(x, 2)\<close> is the square.\<close>

definition volumeZScore :: "real list \<Rightarrow> nat \<Rightarrow> real" where
  "volumeZScore vs lookback =
     (if length vs < lookback \<or> lookback = 0 then 0
      else
        let start = length vs - lookback;
            window = drop start vs;
            mean = foldl (\<lambda>m v. m + v) 0 window / real (length window);
            stdDev = sqrt (foldl (\<lambda>s v. s + (v - mean)\<^sup>2) 0 window / real (length window))
        in if stdDev = 0 then 0 else (last vs - mean) / stdDev)"

text \<open>The conversion \<^verbatim>\<open>int(x)\<close> of a \<^verbatim>\<open>float64\<close> truncates towards zero.\<close>

definition trunc_int :: "real \<Rightarrow> int" where
  "trunc_int x = (if 0 \<le> x then \<lfloor>x\<rfloor> else \<lceil>x\<rceil>)"

text \<open>
  \<^verbatim>\<open>quantile(data, q)\<close>. \<^verbatim>\<open>sort.Float64s(data)\<close> sorts the caller's slice in place, so the
  function returns the slice as it leaves it together with its result. An index outside
  the slice panics.
\<close>

definition quantile :: "real list \<Rightarrow> real \<Rightarrow> panic + (real list \<times> real)" where
  "quantile data q =
     (if length data = 0 then Inr (data, 0)
      else
        let data' = sort data;
            index = q * real (length data' - 1);
            i = trunc_int index
        in if 0 \<le> i \<and> i < int (length data') then Inr (data', data' ! nat i)
           else Inl IndexOutOfRange)"

subsection \<open>\<^verbatim>\<open>enhanceData\<close>\<close>

text \<open>The local variables of \<^verbatim>\<open>enhanceData\<close> that live across iterations.\<close>

record enhance_state =
  enhanced :: "EnhancedBar list"
  cumulativeVolume :: real
  cumulativeVWAP :: real
  volumes :: "real list"
  ranges :: "real list"
  volumePerTrade :: "real list"

definition initial_state :: enhance_state where
  "initial_state =
     \<lparr>enhanced = [], cumulativeVolume = 0, cumulativeVWAP = 0, volumes = [], ranges = [],
      volumePerTrade = []\<rparr>"

text \<open>The bar as the struct literal builds it: the fields not named are zero.\<close>

definition new_bar :: "Agg \<Rightarrow> EnhancedBar" where
  "new_bar agg =
     \<lparr>Timestamp = agg_Timestamp agg, Open = agg_Open agg, Close = agg_Close agg,
      High = agg_High agg, Low = agg_Low agg, Volume = agg_Volume agg,
      Transactions = real_of_int (agg_Transactions agg), CumulativeVWAP = 0,
      VolumeZScore = 0, IsDoji = False, BearishEngulfing = False, BullishEngulfing = False,
      InstitutionalFlow = False, ATR = 0, VWAP = agg_VWAP agg\<rparr>"

text \<open>
  One iteration of the loop. In \<^verbatim>\<open>IsDoji\<close> the quotient \<^verbatim>\<open>body/barRange\<close> with a zero
  range is an infinity or NaN in Go and 0 here; the second conjunct \<^verbatim>\<open>barRange > 0\<close> is
  false then, so the flag is false in both.
\<close>

definition enhance_bar :: "enhance_state \<Rightarrow> Agg \<Rightarrow> panic + enhance_state" where
  "enhance_bar st agg =
     (let bar0 = new_bar agg;
          cumVol = cumulativeVolume st + Volume bar0;
          cumVW = cumulativeVWAP st + Volume bar0 * VWAP bar0;
          bar1 = (if cumVol > 0 then bar0\<lparr>CumulativeVWAP := cumVW / cumVol\<rparr> else bar0);
          barRange = High bar1 - Low bar1;
          rs = ranges st @ [barRange];
          bar2 = bar1\<lparr>ATR := calculateATR rs 14\<rparr>;
          vs = volumes st @ [Volume bar2];
          bar3 = bar2\<lparr>VolumeZScore := volumeZScore vs 14\<rparr>;
          body = \<bar>Close bar3 - Open bar3\<bar>;
          bar4 = bar3\<lparr>IsDoji := (body / barRange < 0.1 \<and> barRange > 0)\<rparr>;
          bar5 = (if length (enhanced st) > 0
                  then let prevBar = last (enhanced st)
                       in bar4\<lparr>BearishEngulfing :=
                                 (Close bar4 < Open bar4 \<and> Open bar4 > Close prevBar
                                  \<and> Close bar4 < Open prevBar),
                               BullishEngulfing :=
                                 (Close bar4 > Open bar4 \<and> Open bar4 < Close prevBar
                                  \<and> Close bar4 > Open prevBar)\<rparr>
                  else bar4);
          st1 = st\<lparr>cumulativeVolume := cumVol, cumulativeVWAP := cumVW, volumes := vs,
                   ranges := rs\<rparr>
      in if Transactions bar5 > 0
         then let vpt = Volume bar5 / Transactions bar5;
                  hist = volumePerTrade st @ [vpt]
              in (case quantile hist 0.9 of
                    Inl p \<Rightarrow> Inl p
                  | Inr (hist', q90) \<Rightarrow>
                      Inr (st1\<lparr>enhanced := enhanced st @ [bar5\<lparr>InstitutionalFlow := vpt > q90\<rparr>],
                               volumePerTrade := hist'\<rparr>))
         else Inr (st1\<lparr>enhanced := enhanced st @ [bar5]\<rparr>))"

text \<open>
  The loop \<^verbatim>\<open>for bars.Next()\<close> over the iterator; the list is what the iterator yields.
\<close>

fun enhance_loop :: "enhance_state \<Rightarrow> Agg list \<Rightarrow> panic + enhance_state" where
  "enhance_loop st [] = Inr st"
| "enhance_loop st (agg # rest) =
     (case enhance_bar st agg of Inl p \<Rightarrow> Inl p | Inr st' \<Rightarrow> enhance_loop st' rest)"

definition enhanceData :: "Agg list \<Rightarrow> panic + EnhancedBar list" where
  "enhanceData bars =
     (case enhance_loop initial_state bars of Inl p \<Rightarrow> Inl p | Inr st \<Rightarrow> Inr (enhanced st))"

subsection \<open>The enriched bars in closed form\<close>

text \<open>
  The quantities the specification speaks of, as functions of the input bars: the range
  of a bar, its volume per transaction, the history of these values over the bars with
  a positive transaction count, and the nearest-rank 90th percentile (the element at
  index \<open>floor (0.9 * (n - 1))\<close> of the history sorted in ascending order).
\<close>

definition bar_range :: "Agg \<Rightarrow> real" where
  "bar_range a = agg_High a - agg_Low a"

definition vpt_of :: "Agg \<Rightarrow> real" where
  "vpt_of a = agg_Volume a / real_of_int (agg_Transactions a)"

definition vpt_history :: "Agg list \<Rightarrow> real list" where
  "vpt_history bars = map vpt_of (filter (\<lambda>a. agg_Transactions a > 0) bars)"

definition percentile90 :: "real list \<Rightarrow> real" where
  "percentile90 hist = sort hist ! nat \<lfloor>0.9 * real (length hist - 1)\<rfloor>"

definition running_volume :: "Agg list \<Rightarrow> real" where
  "running_volume bars = sum_list (map agg_Volume bars)"

definition running_notional :: "Agg list \<Rightarrow> real" where
  "running_notional bars = sum_list (map (\<lambda>a. agg_Volume a * agg_VWAP a) bars)"

text \<open>
  The enriched bar of \<open>a\<close> when the bars \<open>prev\<close> came before it, written without the
  loop's running variables.
\<close>

definition enriched :: "Agg list \<Rightarrow> Agg \<Rightarrow> EnhancedBar" where
  "enriched prev a =
     \<lparr>Timestamp = agg_Timestamp a, Open = agg_Open a, Close = agg_Close a,
      High = agg_High a, Low = agg_Low a, Volume = agg_Volume a,
      Transactions = real_of_int (agg_Transactions a),
      CumulativeVWAP =
        (if running_volume (prev @ [a]) > 0
         then running_notional (prev @ [a]) / running_volume (prev @ [a]) else 0),
      VolumeZScore = volumeZScore (map agg_Volume (prev @ [a])) 14,
      IsDoji = (\<bar>agg_Close a - agg_Open a\<bar> / bar_range a < 0.1 \<and> bar_range a > 0),
      BearishEngulfing =
        (prev \<noteq> [] \<and> agg_Close a < agg_Open a \<and> agg_Open a > agg_Close (last prev)
         \<and> agg_Close a < agg_Open (last prev)),
      BullishEngulfing =
        (prev \<noteq> [] \<and> agg_Close a > agg_Open a \<and> agg_Open a < agg_Close (last prev)
         \<and> agg_Close a > agg_Open (last prev)),
      InstitutionalFlow =
        (agg_Transactions a > 0 \<and> vpt_of a > percentile90 (vpt_history (prev @ [a]))),
      ATR = calculateATR (map bar_range (prev @ [a])) 14,
      VWAP = agg_VWAP a\<rparr>"

definition enriched_bars :: "Agg list \<Rightarrow> EnhancedBar list" where
  "enriched_bars bars = map (\<lambda>i. enriched (take i bars) (bars ! i)) [0..<length bars]"

definition history_state :: "Agg list \<Rightarrow> enhance_state" where
  "history_state bars =
     \<lparr>enhanced = enriched_bars bars,
      cumulativeVolume = running_volume bars,
      cumulativeVWAP = running_notional bars,
      volumes = map agg_Volume bars,
      ranges = map bar_range bars,
      volumePerTrade = sort (vpt_history bars)\<rparr>"

section \<open>The signal generator\<close>

text \<open>
  The formatting functions of the standard library that build the messages:
  \<^verbatim>\<open>bar.Timestamp.Format("15:04")\<close> and the verbs \<^verbatim>\<open>%.2f\<close> and \<^verbatim>\<open>%.0f\<close> of
  \<^verbatim>\<open>fmt.Sprintf\<close>.
\<close>

record fmt_env =
  fmt_clock :: "int \<Rightarrow> string"
  fmt_f2 :: "real \<Rightarrow> string"
  fmt_f0 :: "real \<Rightarrow> string"

text \<open>The eight messages, each \<^verbatim>\<open>fmt.Sprintf\<close> call written as a concatenation.\<close>

definition msg_doji :: "fmt_env \<Rightarrow> EnhancedBar \<Rightarrow> string" where
  "msg_doji env bar =
     fmt_clock env (Timestamp bar) @ '' STRADDLE: Doji Pattern - Indecision Closing price (''
       @ fmt_f2 env (Close bar) @ '')''"

definition msg_bearish :: "fmt_env \<Rightarrow> EnhancedBar \<Rightarrow> string" where
  "msg_bearish env bar =
     fmt_clock env (Timestamp bar)
       @ '' PUT: Bearish Engulfing - Reversal Likely Closing price (''
       @ fmt_f2 env (Close bar) @ '')''"

definition msg_bullish :: "fmt_env \<Rightarrow> EnhancedBar \<Rightarrow> string" where
  "msg_bullish env bar =
     fmt_clock env (Timestamp bar)
       @ '' CALL: Bullish Engulfing - Reversal Likely Closing price (''
       @ fmt_f2 env (Close bar) @ '')''"

definition msg_spike_sell :: "fmt_env \<Rightarrow> EnhancedBar \<Rightarrow> string" where
  "msg_spike_sell env bar =
     fmt_clock env (Timestamp bar) @ '' PUT: Volume Spike + Price Drop (''
       @ fmt_f2 env (Volume bar) @ '') - Institutional Selling Likely Closing price (''
       @ fmt_f2 env (Close bar) @ '')''"

definition msg_spike_buy :: "fmt_env \<Rightarrow> EnhancedBar \<Rightarrow> string" where
  "msg_spike_buy env bar =
     fmt_clock env (Timestamp bar) @ '' CALL: Volume Spike + Institutional Flow (''
       @ fmt_f2 env (Volume bar) @ '') - Institutional Buying Likely Closing price (''
       @ fmt_f2 env (Close bar) @ '')''"

definition msg_volatility :: "fmt_env \<Rightarrow> EnhancedBar \<Rightarrow> string" where
  "msg_volatility env bar =
     fmt_clock env (Timestamp bar) @ '' STRADDLE: Volatility Expansion (ATR ''
       @ fmt_f2 env (ATR bar) @ '') - Institutional Activity Likely Closing price (''
       @ fmt_f2 env (Close bar) @ '')''"

definition msg_up :: "fmt_env \<Rightarrow> EnhancedBar \<Rightarrow> string" where
  "msg_up env bar =
     fmt_clock env (Timestamp bar) @ '' UP: Institutional Buying Detected (Volume ''
       @ fmt_f0 env (Volume bar) @ '') - Closing price ('' @ fmt_f2 env (Close bar) @ '')''"

definition msg_down :: "fmt_env \<Rightarrow> EnhancedBar \<Rightarrow> string" where
  "msg_down env bar =
     fmt_clock env (Timestamp bar) @ '' DOWN: Institutional Selling Detected (Volume ''
       @ fmt_f0 env (Volume bar) @ '') - Closing price ('' @ fmt_f2 env (Close bar) @ '')''"

text \<open>
  The body of the loop \<^verbatim>\<open>for i, bar := range bars\<close>: \<open>signals\<close> is the slice built so
  far, and every \<^verbatim>\<open>if\<close> appends to what the ones before it left.
\<close>

definition signal_step :: "fmt_env \<Rightarrow> EnhancedBar list \<Rightarrow> string list \<Rightarrow> nat \<Rightarrow> string list" where
  "signal_step env bars signals i =
     (let bar = bars ! i in
      if i < 3 then signals
      else
        let s1 = (if IsDoji bar then signals @ [msg_doji env bar] else signals);
            s2 = (if BearishEngulfing bar then s1 @ [msg_bearish env bar] else s1);
            s3 = (if BullishEngulfing bar then s2 @ [msg_bullish env bar] else s2);
            s4 = (if VolumeZScore bar > 2 \<and> Close bar < Open bar
                  then s3 @ [msg_spike_sell env bar] else s3);
            s5 = (if VolumeZScore bar > 2 \<and> Close bar > Open bar
                  then s4 @ [msg_spike_buy env bar] else s4);
            s6 = (if i > 0 \<and> ATR bar > ATR (bars ! (i - 1)) * 1.5
                  then s5 @ [msg_volatility env bar] else s5)
        in if InstitutionalFlow bar \<and> Close bar > Open bar \<and> VolumeZScore bar > 1
           then s6 @ [msg_up env bar]
           else if InstitutionalFlow bar \<and> Close bar < Open bar \<and> VolumeZScore bar > 1
           then s6 @ [msg_down env bar]
           else s6)"

definition generateSignals :: "fmt_env \<Rightarrow> EnhancedBar list \<Rightarrow> string list" where
  "generateSignals env bars = foldl (signal_step env bars) [] [0..<length bars]"

subsection \<open>The rules as the specification lists them\<close>

text \<open>
  The eight trigger rules of the bar at index \<open>i\<close>, in the order 1 to 8, each with its
  message; \<open>fired\<close> keeps the messages of the rules whose condition holds.
\<close>

definition rules :: "fmt_env \<Rightarrow> EnhancedBar list \<Rightarrow> nat \<Rightarrow> (bool \<times> string) list" where
  "rules env bars i =
     (let bar = bars ! i in
      [(IsDoji bar, msg_doji env bar),
       (BearishEngulfing bar, msg_bearish env bar),
       (BullishEngulfing bar, msg_bullish env bar),
       (VolumeZScore bar > 2 \<and> Close bar < Open bar, msg_spike_sell env bar),
       (VolumeZScore bar > 2 \<and> Close bar > Open bar, msg_spike_buy env bar),
       (i > 0 \<and> ATR bar > ATR (bars ! (i - 1)) * 1.5, msg_volatility env bar),
       (InstitutionalFlow bar \<and> Close bar > Open bar \<and> VolumeZScore bar > 1, msg_up env bar),
       (InstitutionalFlow bar \<and> Close bar < Open bar \<and> VolumeZScore bar > 1,
        msg_down env bar)])"

definition fired :: "fmt_env \<Rightarrow> EnhancedBar list \<Rightarrow> nat \<Rightarrow> string list" where
  "fired env bars i = map snd (filter fst (rules env bars i))"

section \<open>The analysis run\<close>

record DeepSearchService =
  startDuration :: string
  endDuration :: string
  timeSpan :: string
  multiplier :: int
  ticker :: string
  userId :: string

text \<open>
  The fields of \<^verbatim>\<open>models.TechnicalSignal\<close> that \<^verbatim>\<open>storeSignalsInDatabase\<close> sets; the
  key and the two time stamps that the ORM fills in are left out.
\<close>

record TechnicalSignal =
  ts_StartDate :: int
  ts_EndDate :: int
  ts_Interval :: string
  ts_WindowSize :: int
  ts_Ticker :: string
  ts_AnalysisType :: string
  ts_Signals :: "string list"
  ts_PolyStartDuration :: string
  ts_PolyEndDuration :: string
  ts_PolyTimeSpan :: string
  ts_PolyMultiplier :: int
  ts_FinalDecision :: string
  ts_UserId :: string

text \<open>
  The database as the run sees it: every record handed to \<^verbatim>\<open>db.Create\<close>, in order, and
  the records that were stored.
\<close>

record database =
  create_calls :: "TechnicalSignal list"
  stored :: "TechnicalSignal list"

subsection \<open>The market-data service\<close>

text \<open>
  \<^verbatim>\<open>StockTechnicalService\<close> of the package \<^verbatim>\<open>service\<close>, and the parameters of an aggregates
  request (\<^verbatim>\<open>models.ListAggsParams\<close>): the fields \<^verbatim>\<open>GetPolygonAggregate\<close> sets, the three
  pointer fields as options.
\<close>

record StockTechnicalService =
  apiKey :: string
  svc_ticker :: string

record ListAggsParams =
  la_Ticker :: string
  la_Multiplier :: int
  la_Timespan :: string
  la_From :: int
  la_To :: int
  la_Adjusted :: "bool option"
  la_Order :: "string option"
  la_Limit :: "int option"

text \<open>
  The iterator \<^verbatim>\<open>*iter.Iter[models.Agg]\<close> that the client's \<^verbatim>\<open>ListAggs\<close> returns. It sends
  no request when it is created: it asks for a page of results when \<^verbatim>\<open>Next\<close> needs one,
  and a request that fails makes \<^verbatim>\<open>Next\<close> return false and is reported by \<^verbatim>\<open>Err\<close>. An
  iterator is therefore the bars that \<^verbatim>\<open>Next\<close> and \<^verbatim>\<open>Item\<close> deliver until \<^verbatim>\<open>Next\<close> returns
  false, and the value of \<^verbatim>\<open>Err\<close> then.
\<close>

record agg_iter =
  yielded :: "Agg list"
  iter_err :: "string option"

text \<open>
  What the run does not control: the process environment, \<^verbatim>\<open>time.Parse(layout, value)\<close>
  (an error, or the time in milliseconds), the iterator that the market-data client
  returns for an API key and the parameters of a request, the order in which Go ranges
  over the map of counts, the formatting functions, whether the database rejects a
  record, and the Unicode mapping of \<^verbatim>\<open>strings.ToUpper\<close>.
\<close>

record run_env =
  Getenv :: "string \<Rightarrow> string"
  time_Parse :: "string \<Rightarrow> string \<Rightarrow> string + int"
  ListAggs :: "string \<Rightarrow> ListAggsParams \<Rightarrow> agg_iter"
  map_order :: "string list"
  unicode_upper :: "string \<Rightarrow> string"
  formats :: fmt_env
  create_error :: "TechnicalSignal \<Rightarrow> string option"

text \<open>\<^verbatim>\<open>NewStockTechnicalService(ticker)\<close>.\<close>

definition NewStockTechnicalService :: "run_env \<Rightarrow> string \<Rightarrow> StockTechnicalService" where
  "NewStockTechnicalService env tick =
     (let key = Getenv env ''POLYGON_API_KEY'';
          key' = (if key = [] then Getenv env ''POLYGON_API_KEY'' else key)
      in \<lparr>apiKey = key', svc_ticker = tick\<rparr>)"

text \<open>
  \<^verbatim>\<open>GetPolygonAggregate(timeSpan, startDate, endDate, multiplier)\<close>. Its only errors are
  those of \<^verbatim>\<open>time.Parse\<close>; the iterator is returned as the client made it, with no request
  sent yet.
\<close>

definition GetPolygonAggregate ::
  "run_env \<Rightarrow> StockTechnicalService \<Rightarrow> string \<Rightarrow> string \<Rightarrow> string \<Rightarrow> int
     \<Rightarrow> string + agg_iter" where
  "GetPolygonAggregate env svc tspan startDate endDate mul =
     (case time_Parse env ''2006-01-02'' startDate of
        Inl err \<Rightarrow> Inl err
      | Inr t_from \<Rightarrow>
          (case time_Parse env ''2006-01-02'' endDate of
             Inl err \<Rightarrow> Inl err
           | Inr t_to \<Rightarrow>
               Inr (ListAggs env (apiKey svc)
                      \<lparr>la_Ticker = svc_ticker svc, la_Multiplier = mul, la_Timespan = tspan,
                       la_From = t_from, la_To = t_to, la_Adjusted = Some True,
                       la_Order = Some ''asc'', la_Limit = Some 120\<rparr>)))"

subsection \<open>The run\<close>

text \<open>
  How a call ends: it returns (an error value or \<^verbatim>\<open>nil\<close>), the process exits
  (\<^verbatim>\<open>log.Fatal\<close> logs its argument and calls \<^verbatim>\<open>os.Exit(1)\<close>), or it panics.
\<close>

datatype outcome = Return "string option" | Exit string | Panicked panic

definition db_Create :: "run_env \<Rightarrow> database \<Rightarrow> TechnicalSignal \<Rightarrow> string option \<times> database" where
  "db_Create env db r =
     (case create_error env r of
        Some err \<Rightarrow> (Some err, db\<lparr>create_calls := create_calls db @ [r]\<rparr>)
      | None \<Rightarrow> (None, db\<lparr>create_calls := create_calls db @ [r], stored := stored db @ [r]\<rparr>))"

text \<open>\<^verbatim>\<open>storeSignalsInDatabase\<close>; what it prints is not modelled.\<close>

definition storeSignalsInDatabase ::
  "run_env \<Rightarrow> DeepSearchService \<Rightarrow> database \<Rightarrow> EnhancedBar list \<Rightarrow> string list \<Rightarrow> string
     \<Rightarrow> string option \<times> database" where
  "storeSignalsInDatabase env s db bars signals tick =
     (if length bars = 0 \<or> length signals = 0 then (Some ''no bars or signals'', db)
      else
        let firstBar = bars ! 0;
            lastBar = bars ! (length bars - 1);
            finalDecision =
              getFinalDecisionFromSignals (unicode_upper env) (map_order env) signals;
            technicalSignal =
              \<lparr>ts_StartDate = Timestamp firstBar, ts_EndDate = Timestamp lastBar,
               ts_Interval = ''minute'', ts_WindowSize = int (length bars),
               ts_Ticker = tick, ts_AnalysisType = ''technical'', ts_Signals = signals,
               ts_PolyStartDuration = startDuration s, ts_PolyEndDuration = endDuration s,
               ts_PolyTimeSpan = timeSpan s, ts_PolyMultiplier = multiplier s,
               ts_FinalDecision = finalDecision, ts_UserId = userId s\<rparr>
        in db_Create env db technicalSignal)"

text \<open>
  \<^verbatim>\<open>AnalyseMain\<close>; \<^verbatim>\<open>printSignals\<close> only prints. \<^verbatim>\<open>enhanceData\<close> reads the iterator with
  \<^verbatim>\<open>Next\<close> and \<^verbatim>\<open>Item\<close> alone, so it sees the bars the iterator delivers; neither function
  calls \<^verbatim>\<open>Err\<close>.
\<close>

definition AnalyseMain :: "run_env \<Rightarrow> DeepSearchService \<Rightarrow> database \<Rightarrow> outcome \<times> database" where
  "AnalyseMain env s db =
     (let svc = NewStockTechnicalService env (ticker s) in
      case GetPolygonAggregate env svc (timeSpan s) (startDuration s) (endDuration s)
             (multiplier s) of
        Inl err \<Rightarrow> (Exit err, db)
      | Inr bars \<Rightarrow>
          (case enhanceData (yielded bars) of
             Inl p \<Rightarrow> (Panicked p, db)
           | Inr enhancedBars \<Rightarrow>
               if length enhancedBars = 0 then (Return (Some ''no enhanced bars''), db)
               else
                 let signals = generateSignals (formats env) enhancedBars in
                 if length signals > 0 \<and> length enhancedBars > 0
                 then (case storeSignalsInDatabase env s db enhancedBars signals (ticker s) of
                         (Some err, db') \<Rightarrow> (Return (Some err), db')
                       | (None, db') \<Rightarrow> (Return None, db'))
                 else (Return (Some ''no signals or enhanced bars''), db)))"
section \<open>The earnings and big-money correlator\<close>

subsection \<open>Data\<close>

record EarningsResult =
  er_Ticker :: string
  er_Date :: string
  er_ActualEPS :: "real option"
  er_ActualRevenue :: "real option"
  er_EstimatedEPS :: "real option"
  er_EstimatedRevenue :: "real option"
  er_Importance :: int
  er_Time :: string
  er_Updated :: string

record EarningsBigMoneyResult =
  Ticker :: string
  Date :: string
  Time :: string
  EstimatedEPS :: "real option"
  ActualEPS :: "real option"
  Importance :: int
  BigMoneyDirection :: string
  NetBigMoneyFlow :: "real option"
  LargeTradesCount :: "int option"
  BuyerInitiatedVol :: "real option"
  SellerInitiatedVol :: "real option"
  AnalysisDate :: "string option"
  Error :: "string option"

record EarningsBigMoneySummary =
  BullishCount :: int
  BearishCount :: int
  NeutralCount :: int
  ErrorCount :: int
  TotalAnalyzed :: int

record EarningsBigMoneyResponse =
  rsp_Date :: string
  rsp_TotalTickers :: int
  rsp_Results :: "EarningsBigMoneyResult list"
  rsp_Summary :: EarningsBigMoneySummary

record TradeAnalysisResult =
  tr_TotalTrades :: int
  tr_AvgTradeSize :: real
  tr_LargeTradesCount :: int
  tr_NetBigMoneyFlow :: real
  tr_BuyerInitiatedVolume :: real
  tr_SellerInitiatedVolume :: real
  tr_Direction :: string

record TradeAnalysisResponse =
  ta_Ticker :: string
  ta_StartTime :: int
  ta_EndTime :: int
  ta_AnalysisDate :: int
  ta_LargeTradeThreshold :: real
  ta_Result :: TradeAnalysisResult

record EarningsBigMoneyHandler =
  PolygonAPIKey :: string
  PolygonBaseURL :: string
  TradeAnalysisURL :: string

subsection \<open>The network and the library, as one lookup sees them\<close>

text \<open>
  An HTTP response: its status code, and what \<^verbatim>\<open>io.ReadAll(resp.Body)\<close> gives, the
  bytes read and the read error if there is one.
\<close>

record http_response =
  StatusCode :: int
  Body :: "string \<times> string option"

text \<open>
  \<^verbatim>\<open>http.Get\<close> (an error text or a response), \<^verbatim>\<open>json.Unmarshal\<close> into a
  \<^verbatim>\<open>TradeAnalysisResponse\<close> (an error text or the decoded value), and the formatting of a
  date as \<^verbatim>\<open>2006-01-02\<close>, of the threshold with \<^verbatim>\<open>%.2f\<close> and of the status with \<^verbatim>\<open>%d\<close>.
\<close>

record http_env =
  http_Get :: "string \<Rightarrow> string + http_response"
  json_Unmarshal :: "string \<Rightarrow> string + TradeAnalysisResponse"
  fmt_date :: "int \<Rightarrow> string"
  fmt_threshold :: "real \<Rightarrow> string"
  fmt_status :: "int \<Rightarrow> string"

subsection \<open>\<^verbatim>\<open>analyzeTickerBigMoney\<close>\<close>

definition request_url :: "http_env \<Rightarrow> EarningsBigMoneyHandler \<Rightarrow> EarningsResult \<Rightarrow> int \<Rightarrow> real \<Rightarrow> string" where
  "request_url env h earning analysisDate largeThreshold =
     TradeAnalysisURL h @ ''/api/v1/trade-analysis/'' @ er_Ticker earning @ ''?start_date=''
       @ fmt_date env analysisDate @ ''&large_trade_threshold=''
       @ fmt_threshold env largeThreshold"

text \<open>The result as the struct literal builds it: the fields not named are zero or nil.\<close>

definition new_result :: "EarningsResult \<Rightarrow> EarningsBigMoneyResult" where
  "new_result earning =
     \<lparr>Ticker = er_Ticker earning, Date = er_Date earning, Time = er_Time earning,
      EstimatedEPS = er_EstimatedEPS earning, ActualEPS = er_ActualEPS earning,
      Importance = er_Importance earning, BigMoneyDirection = [],
      NetBigMoneyFlow = None, LargeTradesCount = None, BuyerInitiatedVol = None,
      SellerInitiatedVol = None, AnalysisDate = None, Error = None\<rparr>"

definition analyzeTickerBigMoney ::
  "http_env \<Rightarrow> EarningsBigMoneyHandler \<Rightarrow> EarningsResult \<Rightarrow> int \<Rightarrow> real
     \<Rightarrow> EarningsBigMoneyResult" where
  "analyzeTickerBigMoney env h earning analysisDate largeThreshold =
     (let result = new_result earning;
          url = request_url env h earning analysisDate largeThreshold
      in case http_Get env url of
           Inl err \<Rightarrow>
             result\<lparr>BigMoneyDirection := ''ERROR'',
                    Error := Some (''Failed to call tradeanalysis API: '' @ err)\<rparr>
         | Inr resp \<Rightarrow>
             if StatusCode resp \<noteq> 200
             then result\<lparr>BigMoneyDirection := ''ERROR'',
                         Error := Some (''Tradeanalysis API returned status ''
                                         @ fmt_status env (StatusCode resp) @ '': ''
                                         @ fst (Body resp))\<rparr>
             else
               (case snd (Body resp) of
                  Some err \<Rightarrow>
                    result\<lparr>BigMoneyDirection := ''ERROR'',
                           Error := Some (''Failed to read tradeanalysis response: '' @ err)\<rparr>
                | None \<Rightarrow>
                    (case json_Unmarshal env (fst (Body resp)) of
                       Inl err \<Rightarrow>
                         result\<lparr>BigMoneyDirection := ''ERROR'',
                                Error :=
                                  Some (''Failed to parse tradeanalysis response: '' @ err)\<rparr>
                     | Inr tradeAnalysis \<Rightarrow>
                         let r = result
                               \<lparr>BigMoneyDirection := tr_Direction (ta_Result tradeAnalysis),
                                NetBigMoneyFlow :=
                                  Some (tr_NetBigMoneyFlow (ta_Result tradeAnalysis)),
                                LargeTradesCount :=
                                  Some (tr_LargeTradesCount (ta_Result tradeAnalysis)),
                                BuyerInitiatedVol :=
                                  Some (tr_BuyerInitiatedVolume (ta_Result tradeAnalysis)),
                                SellerInitiatedVol :=
                                  Some (tr_SellerInitiatedVolume (ta_Result tradeAnalysis)),
                                AnalysisDate :=
                                  Some (fmt_date env (ta_AnalysisDate tradeAnalysis))\<rparr>
                         in if tr_TotalTrades (ta_Result tradeAnalysis) = 0
                            then r\<lparr>BigMoneyDirection := ''NO_DATA''\<rparr>
                            else r)))"

subsection \<open>The summary and the response\<close>

text \<open>The loop after \<^verbatim>\<open>wg.Wait()\<close> that counts the directions.\<close>

definition count_direction :: "EarningsBigMoneySummary \<Rightarrow> EarningsBigMoneyResult \<Rightarrow> EarningsBigMoneySummary" where
  "count_direction summary r =
     (if BigMoneyDirection r = ''BUYING_PRESSURE''
        then summary\<lparr>BullishCount := BullishCount summary + 1\<rparr>
      else if BigMoneyDirection r = ''SELLING_PRESSURE''
        then summary\<lparr>BearishCount := BearishCount summary + 1\<rparr>
      else if BigMoneyDirection r = ''NEUTRAL''
        then summary\<lparr>NeutralCount := NeutralCount summary + 1\<rparr>
      else summary\<lparr>ErrorCount := ErrorCount summary + 1\<rparr>)"

definition calculate_summary :: "EarningsBigMoneyResult list \<Rightarrow> EarningsBigMoneySummary" where
  "calculate_summary rs =
     foldl count_direction
       \<lparr>BullishCount = 0, BearishCount = 0, NeutralCount = 0, ErrorCount = 0,
        TotalAnalyzed = int (length rs)\<rparr> rs"

text \<open>The response that the handler sends for the date \<open>dateStr\<close>.\<close>

definition build_response :: "string \<Rightarrow> EarningsBigMoneyResult list \<Rightarrow> EarningsBigMoneyResponse" where
  "build_response date_str rs =
     \<lparr>rsp_Date = date_str, rsp_TotalTickers = int (length rs), rsp_Results = rs,
      rsp_Summary = calculate_summary rs\<rparr>"

section \<open>The concurrent fan-out of \<^verbatim>\<open>GetEarningsWithBigMoney\<close>\<close>

text \<open>
  The handler starts one goroutine per earnings event and waits for all of them. The
  goroutines synchronise through a wait group \<^verbatim>\<open>wg\<close>, a buffered channel
  \<^verbatim>\<open>semaphore\<close> of capacity 5 and a mutex \<^verbatim>\<open>mu\<close> that guards the slice \<^verbatim>\<open>results\<close>. The
  program has no data race, so its executions are the interleavings of the atomic steps
  of its threads; a step is one synchronisation operation or one stretch of thread-local
  code.

  A batch is what the handler has in hand when the fan-out starts. The lookup of the
  task with number \<open>i\<close> meets the network behaviour \<open>env_of i\<close>, and it returns.
\<close>

record batch =
  dateStr :: string
  handler :: EarningsBigMoneyHandler
  earnings :: "EarningsResult list"
  analysisDate :: int
  largeThreshold :: real
  env_of :: "nat \<Rightarrow> http_env"

text \<open>
  Where a goroutine is in
  \<^verbatim>\<open>defer wg.Done(); semaphore <- struct{}{}; defer func() { <-semaphore }();
  result := h.analyzeTickerBigMoney(e, ...); mu.Lock(); results = append(results, result);
  mu.Unlock()\<close>:
  before the send on the channel (with its argument \<open>e\<close>), in the lookup, before
  \<^verbatim>\<open>mu.Lock()\<close> (with the result), before the append, before \<^verbatim>\<open>mu.Unlock()\<close>, before the
  deferred receive from the channel, before the deferred \<^verbatim>\<open>wg.Done()\<close>, finished.
\<close>

datatype gstate =
    GAcquire EarningsResult
  | GLookup EarningsResult
  | GLock EarningsBigMoneyResult
  | GAppend EarningsBigMoneyResult
  | GUnlock
  | GRelease
  | GWgDone
  | GFinished

text \<open>
  Where the handler is: before \<^verbatim>\<open>wg.Add(1)\<close> of iteration \<open>i\<close> (or at the end of the loop),
  before the \<^verbatim>\<open>go\<close> statement of iteration \<open>i\<close>, in \<^verbatim>\<open>wg.Wait()\<close>, past it with the summary
  computed and the response built.
\<close>

datatype mstate = MAdd nat | MGo nat | MWait | MDone

datatype thread = Main | Task nat

text \<open>
  The shared state. \<open>crashed\<close> records a run-time failure of the synchronisation
  library: a negative wait-group counter or the unlock of an unlocked mutex.
\<close>

record fan_state =
  main :: mstate
  tasks :: "gstate list"
  wg :: int
  semaphore :: nat
  mu :: bool
  results :: "EarningsBigMoneyResult list"
  response :: "EarningsBigMoneyResponse option"
  crashed :: bool

definition initial_fan :: fan_state where
  "initial_fan =
     \<lparr>main = MAdd 0, tasks = [], wg = 0, semaphore = 0, mu = False, results = [],
      response = None, crashed = False\<rparr>"

text \<open>One step of the handler; \<open>None\<close> when it is blocked or has finished.\<close>

definition main_step :: "batch \<Rightarrow> fan_state \<Rightarrow> fan_state option" where
  "main_step b s =
     (case main s of
        MAdd i \<Rightarrow>
          if i < length (earnings b) then Some (s\<lparr>wg := wg s + 1, main := MGo i\<rparr>)
          else Some (s\<lparr>main := MWait\<rparr>)
      | MGo i \<Rightarrow> Some (s\<lparr>tasks := tasks s @ [GAcquire (earnings b ! i)], main := MAdd (i + 1)\<rparr>)
      | MWait \<Rightarrow>
          if wg s = 0
          then Some (s\<lparr>response := Some (build_response (dateStr b) (results s)),
                      main := MDone\<rparr>)
          else None
      | MDone \<Rightarrow> None)"

text \<open>One step of the goroutine number \<open>i\<close>.\<close>

definition task_step :: "batch \<Rightarrow> fan_state \<Rightarrow> nat \<Rightarrow> fan_state option" where
  "task_step b s i =
     (if length (tasks s) \<le> i then None
      else case tasks s ! i of
        GAcquire e \<Rightarrow>
          if semaphore s < 5
          then Some (s\<lparr>semaphore := semaphore s + 1, tasks := (tasks s)[i := GLookup e]\<rparr>)
          else None
      | GLookup e \<Rightarrow>
          Some (s\<lparr>tasks := (tasks s)
                   [i := GLock (analyzeTickerBigMoney (env_of b i) (handler b) e
                                  (analysisDate b) (largeThreshold b))]\<rparr>)
      | GLock r \<Rightarrow>
          if mu s then None else Some (s\<lparr>mu := True, tasks := (tasks s)[i := GAppend r]\<rparr>)
      | GAppend r \<Rightarrow> Some (s\<lparr>results := results s @ [r], tasks := (tasks s)[i := GUnlock]\<rparr>)
      | GUnlock \<Rightarrow>
          if mu s then Some (s\<lparr>mu := False, tasks := (tasks s)[i := GRelease]\<rparr>)
          else Some (s\<lparr>crashed := True\<rparr>)
      | GRelease \<Rightarrow>
          if 0 < semaphore s
          then Some (s\<lparr>semaphore := semaphore s - 1, tasks := (tasks s)[i := GWgDone]\<rparr>)
          else None
      | GWgDone \<Rightarrow>
          if 1 \<le> wg s then Some (s\<lparr>wg := wg s - 1, tasks := (tasks s)[i := GFinished]\<rparr>)
          else Some (s\<lparr>crashed := True\<rparr>)
      | GFinished \<Rightarrow> None)"

definition thread_step :: "batch \<Rightarrow> fan_state \<Rightarrow> thread \<Rightarrow> fan_state option" where
  "thread_step b s t =
     (if crashed s then None
      else case t of Main \<Rightarrow> main_step b s | Task i \<Rightarrow> task_step b s i)"

text \<open>An execution under a schedule: the list of the threads that move, in order.\<close>

fun run :: "batch \<Rightarrow> fan_state \<Rightarrow> thread list \<Rightarrow> fan_state option" where
  "run b s [] = Some s"
| "run b s (t # ts) = (case thread_step b s t of None \<Rightarrow> None | Some s' \<Rightarrow> run b s' ts)"

subsection \<open>Observables, the invariant and the measure\<close>

text \<open>The result that the lookup for the event number \<open>i\<close> gives.\<close>

definition task_result :: "batch \<Rightarrow> nat \<Rightarrow> EarningsBigMoneyResult" where
  "task_result b i =
     analyzeTickerBigMoney (env_of b i) (handler b) (earnings b ! i) (analysisDate b)
       (largeThreshold b)"

fun is_lookup :: "gstate \<Rightarrow> bool" where
  "is_lookup (GLookup e) = True"
| "is_lookup g = False"

text \<open>The number of lookups in flight.\<close>

definition in_flight :: "fan_state \<Rightarrow> nat" where
  "in_flight s = length (filter is_lookup (tasks s))"

text \<open>A goroutine holds a slot of the channel from its send to its receive.\<close>

fun holding :: "gstate \<Rightarrow> bool" where
  "holding (GLookup e) = True"
| "holding (GLock r) = True"
| "holding (GAppend r) = True"
| "holding GUnlock = True"
| "holding GRelease = True"
| "holding g = False"

fun in_mutex :: "gstate \<Rightarrow> bool" where
  "in_mutex (GAppend r) = True"
| "in_mutex GUnlock = True"
| "in_mutex g = False"

fun appended :: "gstate \<Rightarrow> bool" where
  "appended GUnlock = True"
| "appended GRelease = True"
| "appended GWgDone = True"
| "appended GFinished = True"
| "appended g = False"

fun unfinished :: "gstate \<Rightarrow> bool" where
  "unfinished GFinished = False"
| "unfinished g = True"

text \<open>What a goroutine carries is that of its own event.\<close>

fun carries :: "batch \<Rightarrow> nat \<Rightarrow> gstate \<Rightarrow> bool" where
  "carries b i (GAcquire e) = (e = earnings b ! i)"
| "carries b i (GLookup e) = (e = earnings b ! i)"
| "carries b i (GLock r) = (r = task_result b i)"
| "carries b i (GAppend r) = (r = task_result b i)"
| "carries b i g = True"

text \<open>
  The invariant of the executions: the handler has started the goroutines of the
  iterations it has passed, the wait-group counter counts the goroutines that have not
  finished (and the one about to start), the channel holds one element per goroutine
  between its send and its receive, the mutex is locked exactly while one goroutine is
  between \<^verbatim>\<open>Lock\<close> and \<^verbatim>\<open>Unlock\<close>, and \<^verbatim>\<open>results\<close> holds the results of the goroutines
  that have appended, each once, in the order of their appends.
\<close>

fun pending :: "mstate \<Rightarrow> int" where
  "pending (MGo i) = 1"
| "pending m = 0"

fun main_pos :: "nat \<Rightarrow> nat \<Rightarrow> mstate \<Rightarrow> bool" where
  "main_pos n k (MAdd i) = (k = i \<and> i \<le> n)"
| "main_pos n k (MGo i) = (k = i \<and> i < n)"
| "main_pos n k MWait = (k = n)"
| "main_pos n k MDone = (k = n)"

definition fan_inv :: "batch \<Rightarrow> fan_state \<Rightarrow> bool" where
  "fan_inv b s \<longleftrightarrow>
     \<not> crashed s
     \<and> main_pos (length (earnings b)) (length (tasks s)) (main s)
     \<and> wg s = int (length (filter unfinished (tasks s))) + pending (main s)
     \<and> (main s = MDone \<longrightarrow> wg s = 0)
     \<and> response s
         = (if main s = MDone then Some (build_response (dateStr b) (results s)) else None)
     \<and> semaphore s = length (filter holding (tasks s))
     \<and> semaphore s \<le> 5
     \<and> length (filter in_mutex (tasks s)) = (if mu s then 1 else 0)
     \<and> (\<forall>i < length (tasks s). carries b i (tasks s ! i))
     \<and> (\<exists>order. distinct order
           \<and> set order = {i. i < length (tasks s) \<and> appended (tasks s ! i)}
           \<and> results s = map (task_result b) order)"

text \<open>The number of steps that remain.\<close>

fun task_rank :: "gstate \<Rightarrow> nat" where
  "task_rank (GAcquire e) = 7"
| "task_rank (GLookup e) = 6"
| "task_rank (GLock r) = 5"
| "task_rank (GAppend r) = 4"
| "task_rank GUnlock = 3"
| "task_rank GRelease = 2"
| "task_rank GWgDone = 1"
| "task_rank GFinished = 0"

fun main_rank :: "nat \<Rightarrow> mstate \<Rightarrow> nat" where
  "main_rank n (MAdd i) = 2 * (n - i) + 2"
| "main_rank n (MGo i) = 2 * (n - i) + 1"
| "main_rank n MWait = 1"
| "main_rank n MDone = 0"

definition steps_left :: "batch \<Rightarrow> fan_state \<Rightarrow> nat" where
  "steps_left b s =
     main_rank (length (earnings b)) (main s) + sum_list (map task_rank (tasks s))
       + 7 * (length (earnings b) - length (tasks s))"

section \<open>The running VWAP in float64\<close>

text \<open>
  Whether the cumulative VWAP of a bar equals a given value is a question of rounding,
  which exact arithmetic hides. The lines of \<^verbatim>\<open>enhanceData\<close> that keep the running volume
  and notional and set \<^verbatim>\<open>bar.CumulativeVWAP\<close> are therefore embedded a second time here,
  over IEEE 754 binary64 values with every operation rounded to nearest, ties to even.
\<close>

subsection \<open>Binary64 values and rounding\<close>

text \<open>
  A \<^verbatim>\<open>float64\<close> is a finite value, an infinity or NaN. A finite value is the real number
  it stands for; the two zeros are one value (they compare equal, and the code modelled
  here never divides by a zero).
\<close>

datatype float64 = Fin real | PInf | NInf | NaN

text \<open>Rounding a real to the nearest integer, a tie going to the even one.\<close>

definition round_even :: "real \<Rightarrow> int" where
  "round_even m =
     (let f = \<lfloor>m\<rfloor>; r = m - real_of_int f
      in if r < 1 / 2 then f else if 1 / 2 < r then f + 1 else if even f then f else f + 1)"

text \<open>
  The binary exponent of a non-zero real, not below that of the subnormal numbers, and
  the spacing of the binary64 values at that exponent (53 significant bits).
\<close>

definition expo :: "real \<Rightarrow> int" where
  "expo x = max (- 1022) \<lfloor>log 2 \<bar>x\<bar>\<rfloor>"

definition ulp :: "real \<Rightarrow> real" where
  "ulp x = 2 powr real_of_int (expo x - 52)"

text \<open>
  The binary64 value of a real result: the nearest multiple of the spacing, and an
  infinity when that is \<open>2^1024\<close> or more in magnitude.
\<close>

definition round64 :: "real \<Rightarrow> float64" where
  "round64 x =
     (if x = 0 then Fin 0
      else
        let y = real_of_int (round_even (x / ulp x)) * ulp x
        in if 2 powr 1024 \<le> \<bar>y\<bar> then (if 0 < x then PInf else NInf) else Fin y)"

text \<open>A real that is a binary64 value.\<close>

definition is_float64 :: "real \<Rightarrow> bool" where
  "is_float64 x \<longleftrightarrow> round64 x = Fin x"

subsection \<open>Arithmetic\<close>





subsection \<open>The loop\<close>








section \<open>Sample inputs\<close>

text \<open>Concrete bars on which the theorems below are instantiated.\<close>

definition sample_bar :: "real \<Rightarrow> real \<Rightarrow> real \<Rightarrow> real \<Rightarrow> real \<Rightarrow> int \<Rightarrow> real \<Rightarrow> Agg" where
  "sample_bar opn cls hi lo vol tx vw =
     \<lparr>agg_Timestamp = 0, agg_Open = opn, agg_Close = cls, agg_High = hi, agg_Low = lo,
      agg_Volume = vol, agg_Transactions = tx, agg_VWAP = vw\<rparr>"

text \<open>The bar number \<open>n\<close> of a sequence whose ranges are 1, 2, 3, ...\<close>

definition ramp_bar :: "nat \<Rightarrow> Agg" where
  "ramp_bar n = \<lparr>agg_Timestamp = int n, agg_Open = 1, agg_Close = 1, agg_High = real n + 1, agg_Low = 0,
     agg_Volume = 10, agg_Transactions = 2, agg_VWAP = 1\<rparr>"

text \<open>Formatting functions, and two enriched bars: one that triggers no rule and one that
  triggers the rules 1, 3, 5 and 7.\<close>

definition sample_fmt :: fmt_env where
  "sample_fmt = \<lparr>fmt_clock = (\<lambda>t. ''10:15''), fmt_f2 = (\<lambda>x. ''2.00''), fmt_f0 = (\<lambda>x. ''100'')\<rparr>"

definition quiet_bar :: EnhancedBar where
  "quiet_bar =
     \<lparr>Timestamp = 0, Open = 1, Close = 1, High = 1, Low = 1, Volume = 100, Transactions = 4,
      CumulativeVWAP = 1, VolumeZScore = 0, IsDoji = False, BearishEngulfing = False,
      BullishEngulfing = False, InstitutionalFlow = False, ATR = 0, VWAP = 1\<rparr>"

definition busy_bar :: EnhancedBar where
  "busy_bar =
     quiet_bar\<lparr>Close := 2, High := 12, VolumeZScore := 3, IsDoji := True,
       BullishEngulfing := True, InstitutionalFlow := True\<rparr>"

text \<open>
  A service and an empty database. \<^verbatim>\<open>time.Parse\<close> on the strings used here: the two dates
  of the service, and everything else taken as no date.
\<close>

definition sample_service :: DeepSearchService where
  "sample_service =
     \<lparr>startDuration = ''2025-01-15'', endDuration = ''2025-01-16'', timeSpan = ''minute'',
      multiplier = 5, ticker = ''SPY'', userId = ''orchestrator''\<rparr>"

definition empty_db :: database where
  "empty_db = \<lparr>create_calls = [], stored = []\<rparr>"

definition sample_Parse :: "string \<Rightarrow> string \<Rightarrow> string + int" where
  "sample_Parse layout v =
     (if v = ''2025-01-15'' then Inr 1736899200000
      else if v = ''2025-01-16'' then Inr 1736985600000
      else Inl ''parsing time: cannot parse'')"

text \<open>
  Environments that differ in the iterator the client returns: the iterator of
  \<open>iter_env bars err\<close> delivers \<open>bars\<close> and then reports \<open>err\<close>.
\<close>

definition iter_env :: "Agg list \<Rightarrow> string option \<Rightarrow> run_env" where
  "iter_env bars err =
     \<lparr>Getenv = (\<lambda>name. ''key''), time_Parse = sample_Parse,
      ListAggs = (\<lambda>key params. \<lparr>yielded = bars, iter_err = err\<rparr>),
      map_order = [''BUY'', ''SELL'', ''STRADDLE'', ''HOLD''], unicode_upper = (\<lambda>s. s),
      formats = sample_fmt, create_error = (\<lambda>r. None)\<rparr>"

text \<open>
  One bar delivered and no failure; the first request refused, so that no bar is
  delivered; and four bars delivered, the last of them a doji, before the request for
  the next page fails.
\<close>

definition one_bar_env :: run_env where
  "one_bar_env = iter_env [sample_bar 5 5 5 5 100 4 5] None"




text \<open>
  A batch of two events: the lookup of the first meets a refused connection, that of the
  second an answer that reports no trades. The schedule lets both lookups be in flight
  at once and lets the second goroutine append first.
\<close>

definition down_env :: http_env where
  "down_env =
     \<lparr>http_Get = (\<lambda>url. Inl ''connection refused''),
      json_Unmarshal = (\<lambda>body. Inl ''unexpected end of JSON input''),
      fmt_date = (\<lambda>d. ''2025-01-14''), fmt_threshold = (\<lambda>x. ''10.00''),
      fmt_status = (\<lambda>n. ''500'')\<rparr>"

definition quiet_response :: TradeAnalysisResponse where
  "quiet_response =
     \<lparr>ta_Ticker = ''MSFT'', ta_StartTime = 0, ta_EndTime = 0, ta_AnalysisDate = 0,
      ta_LargeTradeThreshold = 10,
      ta_Result = \<lparr>tr_TotalTrades = 0, tr_AvgTradeSize = 0, tr_LargeTradesCount = 0,
                    tr_NetBigMoneyFlow = 0, tr_BuyerInitiatedVolume = 0,
                    tr_SellerInitiatedVolume = 0, tr_Direction = ''NEUTRAL''\<rparr>\<rparr>"

definition no_trades_env :: http_env where
  "no_trades_env =
     \<lparr>http_Get = (\<lambda>url. Inr \<lparr>StatusCode = 200, Body = (''{}'', None)\<rparr>),
      json_Unmarshal = (\<lambda>body. Inr quiet_response),
      fmt_date = (\<lambda>d. ''2025-01-14''), fmt_threshold = (\<lambda>x. ''10.00''),
      fmt_status = (\<lambda>n. ''200'')\<rparr>"

definition sample_earning :: "string \<Rightarrow> EarningsResult" where
  "sample_earning t =
     \<lparr>er_Ticker = t, er_Date = ''2025-01-15'', er_ActualEPS = None, er_ActualRevenue = None,
      er_EstimatedEPS = None, er_EstimatedRevenue = None, er_Importance = 3,
      er_Time = ''16:00'', er_Updated = []\<rparr>"

definition sample_handler :: EarningsBigMoneyHandler where
  "sample_handler =
     \<lparr>PolygonAPIKey = ''key'', PolygonBaseURL = ''https://api.polygon.io'',
      TradeAnalysisURL = ''http://localhost:8082''\<rparr>"

definition sample_batch :: batch where
  "sample_batch =
     \<lparr>dateStr = ''2025-01-15'', handler = sample_handler,
      earnings = [sample_earning ''AAPL'', sample_earning ''MSFT''],
      analysisDate = 0, largeThreshold = 10,
      env_of = (\<lambda>i. if i = 0 then down_env else no_trades_env)\<rparr>"

definition sample_schedule :: "thread list" where
  "sample_schedule =
     [Main, Main, Main, Main, Main,
      Task 0, Task 1, Task 1, Task 0, Task 1, Task 1, Task 1, Task 0, Task 0, Task 0,
      Task 1, Task 0, Task 1, Task 0, Main]"


section \<open>Properties of the decision aggregator\<close>

lemma HasPrefix_iff: "HasPrefix s t \<longleftrightarrow> (\<exists>q. s = t @ q)"
  by (induction s t rule: HasPrefix.induct) auto

lemma Contains_iff: "Contains s t \<longleftrightarrow> (\<exists>p q. s = p @ t @ q)"
proof (induction s)
  case Nil
  then show ?case by auto
next
  case (Cons c cs)
  show ?case
  proof
    assume "Contains (c # cs) t"
    then consider "HasPrefix (c # cs) t" | "Contains cs t" by auto
    then show "\<exists>p q. c # cs = p @ t @ q"
    proof cases
      case 1
      then obtain q where "c # cs = t @ q" by (auto simp: HasPrefix_iff)
      then have "c # cs = [] @ t @ q" by simp
      then show ?thesis by blast
    next
      case 2
      then obtain p q where "cs = p @ t @ q" using Cons.IH by blast
      then have "c # cs = (c # p) @ t @ q" by simp
      then show ?thesis by blast
    qed
  next
    assume "\<exists>p q. c # cs = p @ t @ q"
    then obtain p q where pq: "c # cs = p @ t @ q" by blast
    show "Contains (c # cs) t"
    proof (cases p)
      case Nil
      then have "HasPrefix (c # cs) t" using pq by (auto simp: HasPrefix_iff)
      then show ?thesis by simp
    next
      case (Cons a p')
      then have "cs = p' @ t @ q" using pq by simp
      then have "Contains cs t" using Cons.IH by blast
      then show ?thesis by simp
    qed
  qed
qed

text \<open>
  Upper-casing the whole message and then searching for the (upper-case) keyword finds
  exactly the case-insensitive occurrences.
\<close>

lemma contains_ci_code [code]:
  "contains_ci msg kw \<longleftrightarrow> Contains (map upper_byte msg) (map upper_byte kw)"
proof
  assume "contains_ci msg kw"
  then obtain p w q where "msg = p @ w @ q" "map upper_byte w = map upper_byte kw"
    by (auto simp: contains_ci_def)
  then have "map upper_byte msg = map upper_byte p @ map upper_byte kw @ map upper_byte q"
    by simp
  then show "Contains (map upper_byte msg) (map upper_byte kw)"
    unfolding Contains_iff by blast
next
  assume "Contains (map upper_byte msg) (map upper_byte kw)"
  then obtain p' q' where "map upper_byte msg = p' @ map upper_byte kw @ q'"
    unfolding Contains_iff by blast
  then obtain p r where 1: "msg = p @ r" "map upper_byte r = map upper_byte kw @ q'"
    by (metis map_eq_append_conv)
  then obtain w q where 2: "r = w @ q" "map upper_byte w = map upper_byte kw"
    by (metis map_eq_append_conv)
  show "contains_ci msg kw"
    unfolding contains_ci_def using 1 2 by auto
qed

lemma keywords_upper:
  "map upper_byte ''CALL'' = ''CALL''" "map upper_byte ''UP'' = ''UP''"
  "map upper_byte ''BUY'' = ''BUY''" "map upper_byte ''PUT'' = ''PUT''"
  "map upper_byte ''DOWN'' = ''DOWN''" "map upper_byte ''SELL'' = ''SELL''"
  "map upper_byte ''STRADDLE'' = ''STRADDLE''"
  by (simp_all add: upper_byte_def)

lemma switch_key_ascii: "is_ascii m \<Longrightarrow> switch_key unicode_map m = bucket_of m"
  by (simp only: switch_key_def bucket_of_def ToUpper_def contains_ci_code keywords_upper
      Let_def if_True)

lemma count_signal_key:
  "count_signal unicode_map counts signal = incr counts (switch_key unicode_map signal)"
  by (simp add: count_signal_def switch_key_def Let_def)

lemma switch_key_cases: "switch_key unicode_map m \<in> {''BUY'', ''SELL'', ''STRADDLE'', ''HOLD''}"
  by (simp add: switch_key_def Let_def)

lemma lookup0_incr: "lookup0 (incr c k) k' = lookup0 c k' + (if k' = k then 1 else 0)"
  by (simp add: incr_def lookup0_def)

lemma lookup0_foldl:
  "lookup0 (foldl (count_signal unicode_map) c signals) k
     = lookup0 c k + int (length (filter (\<lambda>m. switch_key unicode_map m = k) signals))"
  by (induction signals arbitrary: c) (simp_all add: count_signal_key lookup0_incr)

lemma lookup0_initial: "lookup0 initial_counts k = 0"
  by (simp add: initial_counts_def lookup0_def)

text \<open>The count under a key is the number of messages for which the switch takes it.\<close>

lemma lookup0_count_signals:
  "lookup0 (count_signals unicode_map signals) k
     = int (length (filter (\<lambda>m. switch_key unicode_map m = k) signals))"
  by (simp add: count_signals_def lookup0_foldl lookup0_initial)

lemma counts_ascii:
  assumes "\<forall>m \<in> set signals. is_ascii m"
  shows "lookup0 (count_signals unicode_map signals) k = bucket_count signals k"
proof -
  have "filter (\<lambda>m. switch_key unicode_map m = k) signals
          = filter (\<lambda>m. bucket_of m = k) signals"
    using assms by (intro filter_cong) (simp_all add: switch_key_ascii)
  then show ?thesis by (simp add: lookup0_count_signals bucket_count_def)
qed

lemma counts_total:
  "lookup0 (count_signals unicode_map signals) ''BUY''
     + lookup0 (count_signals unicode_map signals) ''SELL''
     + lookup0 (count_signals unicode_map signals) ''STRADDLE''
     + lookup0 (count_signals unicode_map signals) ''HOLD''
   = int (length signals)"
proof (induction signals)
  case Nil
  then show ?case by (simp add: lookup0_count_signals)
next
  case (Cons m ms)
  have "switch_key unicode_map m = ''BUY'' \<or> switch_key unicode_map m = ''SELL''
        \<or> switch_key unicode_map m = ''STRADDLE'' \<or> switch_key unicode_map m = ''HOLD''"
    using switch_key_cases [of unicode_map m] by simp
  then show ?case
    using Cons.IH by (auto simp: lookup0_count_signals)
qed

lemma counts_other:
  "k \<notin> {''BUY'', ''SELL'', ''STRADDLE'', ''HOLD''} \<Longrightarrow>
     lookup0 (count_signals unicode_map signals) k = 0"
  using switch_key_cases by (auto simp: lookup0_count_signals filter_empty_conv)

text \<open>What the scan for the maximum establishes, whatever the order of the keys.\<close>

lemma scan_max_inv:
  assumes "scan_max counts ks (f0, lookup0 counts f0) = (f, m)"
  shows "m = lookup0 counts f \<and> lookup0 counts f0 \<le> m
       \<and> (\<forall>k \<in> set ks. lookup0 counts k \<le> m)
       \<and> (f = f0 \<or> f \<in> set ks)
       \<and> (f = f0 \<longleftrightarrow> (\<forall>k \<in> set ks. lookup0 counts k \<le> lookup0 counts f0))"
  using assms
proof (induction ks arbitrary: f0)
  case Nil
  then show ?case by auto
next
  case (Cons k ks)
  show ?case
  proof (cases "lookup0 counts k > lookup0 counts f0")
    case True
    with Cons.prems have "scan_max counts ks (k, lookup0 counts k) = (f, m)" by simp
    from Cons.IH[OF this] True show ?thesis by force
  next
    case False
    with Cons.prems have "scan_max counts ks (f0, lookup0 counts f0) = (f, m)" by simp
    from Cons.IH[OF this] False show ?thesis by force
  qed
qed

lemma final_decision_props:
  assumes "set order = {''BUY'', ''SELL'', ''STRADDLE'', ''HOLD''}"
  shows "(getFinalDecisionFromSignals unicode_map order signals = ''HOLD'' \<longleftrightarrow>
            (\<forall>k \<in> {''BUY'', ''SELL'', ''STRADDLE''}.
               lookup0 (count_signals unicode_map signals) k
                 \<le> lookup0 (count_signals unicode_map signals) ''HOLD''))"
    and "\<forall>k. lookup0 (count_signals unicode_map signals) k \<le>
               lookup0 (count_signals unicode_map signals)
                 (getFinalDecisionFromSignals unicode_map order signals)"
    and "getFinalDecisionFromSignals unicode_map order signals
           \<in> {''BUY'', ''SELL'', ''STRADDLE'', ''HOLD''}"
proof -
  define c where "c = count_signals unicode_map signals"
  obtain f m where fm: "scan_max c order (''HOLD'', lookup0 c ''HOLD'') = (f, m)"
    by (cases "scan_max c order (''HOLD'', lookup0 c ''HOLD'')") auto
  have res: "getFinalDecisionFromSignals unicode_map order signals = f"
    by (simp add: getFinalDecisionFromSignals_def c_def [symmetric] fm)
  note inv = scan_max_inv [OF fm, unfolded assms]
  show "getFinalDecisionFromSignals unicode_map order signals = ''HOLD'' \<longleftrightarrow>
            (\<forall>k \<in> {''BUY'', ''SELL'', ''STRADDLE''}.
               lookup0 (count_signals unicode_map signals) k
                 \<le> lookup0 (count_signals unicode_map signals) ''HOLD'')"
    unfolding res c_def [symmetric] using inv by auto
  show "getFinalDecisionFromSignals unicode_map order signals
           \<in> {''BUY'', ''SELL'', ''STRADDLE'', ''HOLD''}"
    unfolding res using inv by auto
  show "\<forall>k. lookup0 (count_signals unicode_map signals) k \<le>
               lookup0 (count_signals unicode_map signals)
                 (getFinalDecisionFromSignals unicode_map order signals)"
  proof
    fix k
    show "lookup0 (count_signals unicode_map signals) k \<le>
               lookup0 (count_signals unicode_map signals)
                 (getFinalDecisionFromSignals unicode_map order signals)"
    proof (cases "k \<in> {''BUY'', ''SELL'', ''STRADDLE'', ''HOLD''}")
      case True
      then show ?thesis unfolding res c_def [symmetric] using inv by auto
    next
      case False
      then have "lookup0 (count_signals unicode_map signals) k = 0" by (rule counts_other)
      then show ?thesis by (simp add: lookup0_count_signals)
    qed
  qed
qed

lemma example_buckets:
  "bucket_of ''10:01 CALL: ...'' = ''BUY''"
  "bucket_of ''10:02 CALL: ...'' = ''BUY''"
  "bucket_of ''10:03 PUT: ...'' = ''SELL''"
  by code_simp+

lemma example_ascii:
  "\<forall>m \<in> set [''10:01 CALL: ...'', ''10:02 CALL: ...'', ''10:03 PUT: ...'']. is_ascii m"
  by code_simp

lemma example_decision:
  assumes "set order = {''BUY'', ''SELL'', ''STRADDLE'', ''HOLD''}"
  shows "getFinalDecisionFromSignals unicode_map order
           [''10:01 CALL: ...'', ''10:02 CALL: ...'', ''10:03 PUT: ...''] = ''BUY''"
proof -
  let ?sig = "[''10:01 CALL: ...'', ''10:02 CALL: ...'', ''10:03 PUT: ...'']"
  let ?d = "getFinalDecisionFromSignals unicode_map order ?sig"
  let ?c = "lookup0 (count_signals unicode_map ?sig)"
  have c: "?c k = bucket_count ?sig k" for k
    using example_ascii by (rule counts_ascii)
  have buy: "?c ''BUY'' = 2"
    unfolding c by (simp add: bucket_count_def example_buckets)
  have "?c ''BUY'' \<le> ?c ?d"
    using final_decision_props(2) [OF assms] by blast
  then have ge: "2 \<le> ?c ?d" using buy by simp
  have "?d \<in> {''BUY'', ''SELL'', ''STRADDLE'', ''HOLD''}"
    by (rule final_decision_props(3) [OF assms])
  moreover have "?c ''SELL'' = 1" "?c ''STRADDLE'' = 0" "?c ''HOLD'' = 0"
    unfolding c by (simp_all add: bucket_count_def example_buckets)
  ultimately show ?thesis using ge by auto
qed

text \<open>
  Claim C1. For every list of signal messages and every order in which the map of counts
  is traversed: each message is counted under exactly one of the four keys; when the
  messages are made of ASCII bytes (as all generated messages are) the count under a key
  is the number of messages whose bucket is that key, the bucket being found by
  case-insensitive keyword search, BUY before SELL before STRADDLE, else HOLD; the
  decision is HOLD exactly when no other bucket's count strictly exceeds HOLD's; the
  decision is a bucket of maximal count; and for the list
  \<^verbatim>\<open>["10:01 CALL: ...", "10:02 CALL: ...", "10:03 PUT: ..."]\<close> the decision is BUY.
\<close>

theorem decision_aggregator:
  assumes "set order = {''BUY'', ''SELL'', ''STRADDLE'', ''HOLD''}"
  shows "((\<forall>m \<in> set signals. is_ascii m) \<longrightarrow>
            (\<forall>k. lookup0 (count_signals unicode_map signals) k = bucket_count signals k))
       \<and> lookup0 (count_signals unicode_map signals) ''BUY''
           + lookup0 (count_signals unicode_map signals) ''SELL''
           + lookup0 (count_signals unicode_map signals) ''STRADDLE''
           + lookup0 (count_signals unicode_map signals) ''HOLD''
         = int (length signals)
       \<and> (getFinalDecisionFromSignals unicode_map order signals = ''HOLD'' \<longleftrightarrow>
            (\<forall>k \<in> {''BUY'', ''SELL'', ''STRADDLE''}.
               lookup0 (count_signals unicode_map signals) k
                 \<le> lookup0 (count_signals unicode_map signals) ''HOLD''))
       \<and> (\<forall>k. lookup0 (count_signals unicode_map signals) k \<le>
               lookup0 (count_signals unicode_map signals)
                 (getFinalDecisionFromSignals unicode_map order signals))
       \<and> getFinalDecisionFromSignals unicode_map order
           [''10:01 CALL: ...'', ''10:02 CALL: ...'', ''10:03 PUT: ...''] = ''BUY''"
  using final_decision_props(1,2) [OF assms] example_decision [OF assms]
    counts_ascii counts_total
  by blast

theorem decision_aggregator_witness:
  "set [''STRADDLE'', ''HOLD'', ''SELL'', ''BUY''] = {''BUY'', ''SELL'', ''STRADDLE'', ''HOLD''}
   \<and> is_ascii ''09:45 put: bearish'' \<and> is_ascii ''noise'' \<and> is_ascii ''quiet''
   \<and> getFinalDecisionFromSignals (\<lambda>s. s) [''STRADDLE'', ''HOLD'', ''SELL'', ''BUY'']
       [''09:45 put: bearish'', ''noise'', ''quiet''] = ''HOLD''
   \<and> lookup0 (count_signals (\<lambda>s. s) [''09:45 put: bearish'', ''noise'', ''quiet'']) ''SELL'' = 1
   \<and> lookup0 (count_signals (\<lambda>s. s) [''09:45 put: bearish'', ''noise'', ''quiet'']) ''HOLD'' = 2
   \<and> getFinalDecisionFromSignals (\<lambda>s. s) [''STRADDLE'', ''HOLD'', ''SELL'', ''BUY'']
           [''10:01 CALL: ...'', ''10:02 CALL: ...'', ''10:03 PUT: ...''] = ''BUY''"
proof -
  let ?sig = "[''09:45 put: bearish'', ''noise'', ''quiet'']"
  have h: "set [''STRADDLE'', ''HOLD'', ''SELL'', ''BUY'']
             = {''BUY'', ''SELL'', ''STRADDLE'', ''HOLD''}"
    by auto
  have a: "\<forall>m \<in> set ?sig. is_ascii m" by code_simp
  have a': "is_ascii ''09:45 put: bearish'' \<and> is_ascii ''noise'' \<and> is_ascii ''quiet''"
    by code_simp
  have b: "bucket_of ''09:45 put: bearish'' = ''SELL''" "bucket_of ''noise'' = ''HOLD''"
    "bucket_of ''quiet'' = ''HOLD''"
    by code_simp+
  have c: "bucket_count ?sig ''SELL'' = 1" "bucket_count ?sig ''HOLD'' = 2"
    "bucket_count ?sig ''BUY'' = 0" "bucket_count ?sig ''STRADDLE'' = 0"
    by (simp_all add: bucket_count_def b)
  show ?thesis
    using decision_aggregator [OF h, of ?sig "\<lambda>s. s"] h a a' c
    by simp
qed

section \<open>Properties of the bar enricher\<close>

subsection \<open>The loop computes the closed form\<close>

lemma quantile_09:
  assumes "data \<noteq> []"
  shows "quantile data 0.9 = Inr (sort data, percentile90 data)"
proof -
  let ?n = "length data"
  let ?x = "0.9 * real (?n - 1)"
  have nonneg: "0 \<le> ?x" by simp
  have "?x \<le> real (?n - 1)" by simp
  then have "\<lfloor>?x\<rfloor> \<le> int (?n - 1)" by (simp add: floor_le_iff) 
  moreover have "?n > 0" using assms by simp
  ultimately have lt: "\<lfloor>?x\<rfloor> < int ?n" by linarith
  have ge: "0 \<le> \<lfloor>?x\<rfloor>" using nonneg by simp
  show ?thesis
    using assms lt ge nonneg
    by (simp add: quantile_def Let_def trunc_int_def percentile90_def)
qed

lemma sort_snoc_sort: "sort (sort xs @ [x]) = sort (xs @ [x])"
  by (rule properties_for_sort) simp_all

lemma percentile90_sort_snoc: "percentile90 (sort xs @ [x]) = percentile90 (xs @ [x])"
  by (simp add: percentile90_def sort_snoc_sort)

lemma enriched_bars_snoc: "enriched_bars (prev @ [a]) = enriched_bars prev @ [enriched prev a]"
  by (simp add: enriched_bars_def nth_append)

lemma length_enriched_bars: "length (enriched_bars bars) = length bars"
  by (simp add: enriched_bars_def)

lemma last_enriched_bars:
  "prev \<noteq> [] \<Longrightarrow> last (enriched_bars prev) = enriched (butlast prev) (last prev)"
  by (cases prev rule: rev_cases) (simp_all add: enriched_bars_snoc)

lemma enriched_Open_Close:
  "Open (enriched p a) = agg_Open a" "Close (enriched p a) = agg_Close a"
  by (simp_all add: enriched_def)

lemma enhance_bar_history:
  "enhance_bar (history_state prev) a = Inr (history_state (prev @ [a]))"
proof (cases "agg_Transactions a > 0")
  case True
  then show ?thesis
    by (simp add: enhance_bar_def Let_def new_bar_def history_state_def quantile_09
        enriched_bars_snoc length_enriched_bars last_enriched_bars enriched_Open_Close
        sort_snoc_sort percentile90_sort_snoc vpt_history_def running_volume_def running_notional_def
        bar_range_def vpt_of_def)
       (simp add: enriched_def running_volume_def running_notional_def bar_range_def vpt_of_def vpt_history_def)
next
  case False
  then show ?thesis
    by (simp add: enhance_bar_def Let_def new_bar_def history_state_def
        enriched_bars_snoc length_enriched_bars last_enriched_bars enriched_Open_Close
        vpt_history_def running_volume_def running_notional_def
        bar_range_def vpt_of_def)
       (simp add: enriched_def running_volume_def running_notional_def bar_range_def vpt_of_def vpt_history_def)
qed

lemma enhance_loop_snoc:
  "enhance_loop st (xs @ [a]) =
     (case enhance_loop st xs of Inl p \<Rightarrow> Inl p | Inr st' \<Rightarrow> enhance_bar st' a)"
  by (induction xs arbitrary: st) (auto split: sum.splits)

lemma enhance_loop_history: "enhance_loop initial_state bars = Inr (history_state bars)"
proof (induction bars rule: rev_induct)
  case Nil
  show ?case
    by (simp add: initial_state_def history_state_def enriched_bars_def running_volume_def
        running_notional_def vpt_history_def)
next
  case (snoc a bars)
  then show ?case by (simp add: enhance_loop_snoc enhance_bar_history)
qed

lemma enhanceData_enriched: "enhanceData bars = Inr (enriched_bars bars)"
  by (simp add: enhanceData_def enhance_loop_history history_state_def)

lemma enriched_bars_nth:
  "i < length bars \<Longrightarrow> enriched_bars bars ! i = enriched (take i bars) (bars ! i)"
  by (simp add: enriched_bars_def)


subsection \<open>ATR, institutional flow and cumulative VWAP\<close>

lemma foldl_plus_sum_list: "foldl (\<lambda>s r. s + r) (a::real) xs = a + sum_list xs"
  by (induction xs arbitrary: a) simp_all

lemma take_Suc_snoc: "i < length xs \<Longrightarrow> take i xs @ [xs ! i] = take (Suc i) xs"
  by (simp add: take_Suc_conv_app_nth)

lemma take_drop_nth_upt:
  "k + n \<le> length xs \<Longrightarrow> take n (drop k xs) = map (\<lambda>j. xs ! j) [k..<k + n]"
  by (simp add: list_eq_iff_nth_eq)

lemma enriched_ATR:
  assumes "i < length bars"
  shows "ATR (enriched (take i bars) (bars ! i)) =
           (if i + 1 < 14 then 0 else (\<Sum>j = i + 1 - 14..i. bar_range (bars ! j)) / 14)"
proof (cases "i + 1 < 14")
  case True
  then show ?thesis
    using assms by (simp add: enriched_def calculateATR_def)
next
  case False
  let ?k = "i + 1 - 14"
  have len: "length (take i bars @ [bars ! i]) = i + 1" using assms by simp
  have "drop ?k (take (Suc i) bars) = take 14 (drop ?k bars)"
    using False by (simp add: drop_take)
  also have "\<dots> = map (\<lambda>j. bars ! j) [?k..<?k + 14]"
    using False assms by (intro take_drop_nth_upt) simp
  finally have d: "drop ?k (take (Suc i) bars) = map (\<lambda>j. bars ! j) [?k..<?k + 14]" .
  have "sum_list (map bar_range (map (\<lambda>j. bars ! j) [?k..<?k + 14]))
          = (\<Sum>j = ?k..<?k + 14. bar_range (bars ! j))"
    by (simp add: interv_sum_list_conv_sum_set_nat comp_def)
  moreover have "{?k..<?k + 14} = {?k..i}" using False by auto
  ultimately have s: "sum_list (map bar_range (map (\<lambda>j. bars ! j) [?k..<?k + 14]))
          = (\<Sum>j = ?k..i. bar_range (bars ! j))" by simp
  have "ATR (enriched (take i bars) (bars ! i))
          = calculateATR (map bar_range (take (Suc i) bars)) 14"
    using assms by (simp add: enriched_def take_Suc_snoc)
  also have "\<dots> = sum_list (map bar_range (drop ?k (take (Suc i) bars))) / 14"
    using False assms by (simp add: calculateATR_def foldl_plus_sum_list drop_map)
  finally show ?thesis using False d s by simp
qed

text \<open>
  Claim C4. Enriching never fails and gives one bar per input bar. The ATR of the bar at
  index \<open>i\<close> is 0 while fewer than 14 ranges (high minus low) have been seen, that is
  while \<open>i + 1 < 14\<close>, and otherwise the arithmetic mean of the 14 most recent ranges,
  those of the bars \<open>i - 13, ..., i\<close>. At exactly 14 bars the last ATR is the mean of all
  14 ranges.
\<close>

theorem enhanceData_ATR:
  "\<exists>ebs. enhanceData bars = Inr ebs \<and> length ebs = length bars
     \<and> (\<forall>i < length bars.
           ATR (ebs ! i) =
             (if i + 1 < 14 then 0 else (\<Sum>j = i + 1 - 14..i. bar_range (bars ! j)) / 14))
     \<and> (length bars = 14 \<longrightarrow> ATR (ebs ! 13) = (\<Sum>j < 14. bar_range (bars ! j)) / 14)"
proof -
  have 1: "\<forall>i < length bars.
           ATR (enriched_bars bars ! i) =
             (if i + 1 < 14 then 0 else (\<Sum>j = i + 1 - 14..i. bar_range (bars ! j)) / 14)"
    by (simp add: enriched_bars_nth enriched_ATR)
  have 2: "ATR (enriched_bars bars ! 13) = (\<Sum>j < 14. bar_range (bars ! j)) / 14"
    if "length bars = 14"
  proof -
    have "{0..13::nat} = {..<14}" by auto
    then show ?thesis using 1 that by (simp add: atMost_atLeast0)
  qed
  show ?thesis
    using 1 2 by (simp add: enhanceData_enriched length_enriched_bars)
qed



theorem enhanceData_ATR_witness:
  "\<exists>ebs. enhanceData (map ramp_bar [0..<14]) = Inr ebs \<and> length ebs = 14
      \<and> ATR (ebs ! 12) = 0 \<and> ATR (ebs ! 13) = 15 / 2"
proof -
  let ?bars = "map ramp_bar [0..<14]"
  have r: "bar_range (?bars ! j) = real j + 1" if "j < 14" for j
    using that by (simp add: bar_range_def ramp_bar_def)
  have "(\<Sum>j < 14. bar_range (?bars ! j)) = (\<Sum>j < (14::nat). real j + 1)"
    by (rule sum.cong) (simp_all add: bar_range_def ramp_bar_def)
  also have "\<dots> = 105" by (simp add: lessThan_atLeast0 sum.atLeast_Suc_lessThan)
  finally have s: "(\<Sum>j < 14. bar_range (?bars ! j)) = 105" .
  from enhanceData_ATR [of ?bars] obtain ebs where
    e: "enhanceData ?bars = Inr ebs" "length ebs = length ?bars"
    "\<forall>i < length ?bars. ATR (ebs ! i) =
             (if i + 1 < 14 then 0 else (\<Sum>j = i + 1 - 14..i. bar_range (?bars ! j)) / 14)"
    "length ?bars = 14 \<longrightarrow> ATR (ebs ! 13) = (\<Sum>j < 14. bar_range (?bars ! j)) / 14"
    by blast
  have "ATR (ebs ! 12) = 0" using e(3) by simp
  moreover have "ATR (ebs ! 13) = 15 / 2" using e(4) s by simp
  ultimately show ?thesis using e(1,2) by simp
qed

lemma enriched_flow:
  "InstitutionalFlow (enriched prev a) \<longleftrightarrow>
     agg_Transactions a > 0 \<and> vpt_of a > percentile90 (vpt_history (prev @ [a]))"
  by (simp add: enriched_def)

lemma vpt_history_snoc:
  "vpt_history (prev @ [a]) =
     (if agg_Transactions a > 0 then vpt_history prev @ [vpt_of a] else vpt_history prev)"
  by (simp add: vpt_history_def)

lemma volumePerTrade_history [simp]:
  "volumePerTrade (history_state bars) = sort (vpt_history bars)"
  by (simp add: history_state_def)

lemma percentile90_example: "percentile90 [1, 2, 3, 4, 5, 6, 7, 8, 9, 10] = 9"
  by (simp add: percentile90_def)

lemma quantile_example:
  "quantile [1, 2, 3, 4, 5, 6, 7, 8, 9, 10] 0.9 = Inr ([1, 2, 3, 4, 5, 6, 7, 8, 9, 10], 9)"
  by (simp add: quantile_09 percentile90_example)

text \<open>
  Claim C5. For every bar with a positive transaction count, the iteration that handles
  it adds the bar's volume per transaction to the running history (which the code keeps
  sorted, since \<^verbatim>\<open>quantile\<close> sorts it in place), so that the history is that of all
  such bars up to and including this one; and the bar's institutional-flow flag holds
  exactly when its volume per transaction strictly exceeds the nearest-rank 90th
  percentile of that history: the element at index \<open>floor (0.9 * (n - 1))\<close> of the
  history in ascending order. For the history 1, 2, ..., 10 this percentile is 9.
\<close>

theorem enhanceData_institutional_flow:
  "\<exists>ebs. enhanceData bars = Inr ebs \<and> length ebs = length bars
     \<and> (\<forall>i < length bars. agg_Transactions (bars ! i) > 0 \<longrightarrow>
          (\<exists>st st'. enhance_loop initial_state (take i bars) = Inr st
              \<and> enhance_bar st (bars ! i) = Inr st'
              \<and> mset (volumePerTrade st') = add_mset (vpt_of (bars ! i)) (mset (volumePerTrade st))
              \<and> volumePerTrade st' = sort (vpt_history (take (Suc i) bars)))
          \<and> (InstitutionalFlow (ebs ! i) \<longleftrightarrow>
                vpt_of (bars ! i) > percentile90 (vpt_history (take (Suc i) bars))))
     \<and> percentile90 [1, 2, 3, 4, 5, 6, 7, 8, 9, 10] = 9
     \<and> quantile [1, 2, 3, 4, 5, 6, 7, 8, 9, 10] 0.9 = Inr ([1, 2, 3, 4, 5, 6, 7, 8, 9, 10], 9)"
proof -
  have "(\<exists>st st'. enhance_loop initial_state (take i bars) = Inr st
              \<and> enhance_bar st (bars ! i) = Inr st'
              \<and> mset (volumePerTrade st') = add_mset (vpt_of (bars ! i)) (mset (volumePerTrade st))
              \<and> volumePerTrade st' = sort (vpt_history (take (Suc i) bars)))
          \<and> (InstitutionalFlow (enriched_bars bars ! i) \<longleftrightarrow>
                vpt_of (bars ! i) > percentile90 (vpt_history (take (Suc i) bars)))"
    if i: "i < length bars" and t: "agg_Transactions (bars ! i) > 0" for i
  proof -
    have sn: "take i bars @ [bars ! i] = take (Suc i) bars"
      using i by (rule take_Suc_snoc)
    have "mset (volumePerTrade (history_state (take i bars @ [bars ! i])))
            = add_mset (vpt_of (bars ! i)) (mset (volumePerTrade (history_state (take i bars))))"
      using t by (simp add: vpt_history_snoc)
    then have "\<exists>st st'. enhance_loop initial_state (take i bars) = Inr st
              \<and> enhance_bar st (bars ! i) = Inr st'
              \<and> mset (volumePerTrade st') = add_mset (vpt_of (bars ! i)) (mset (volumePerTrade st))
              \<and> volumePerTrade st' = sort (vpt_history (take (Suc i) bars))"
      using enhance_loop_history [of "take i bars"] enhance_bar_history [of "take i bars" "bars ! i"]
      by (simp add: sn)
    moreover have "InstitutionalFlow (enriched_bars bars ! i) \<longleftrightarrow>
                vpt_of (bars ! i) > percentile90 (vpt_history (take (Suc i) bars))"
      using i t by (simp add: enriched_bars_nth enriched_flow sn)
    ultimately show ?thesis by blast
  qed
  then show ?thesis
    by (simp add: enhanceData_enriched length_enriched_bars percentile90_example quantile_example)
qed

text \<open>
  Claim C10. The first bar with a positive transaction count is never flagged: the
  history then holds its value alone, the 90th percentile of a one-element history is
  that element, and the comparison is strict.
\<close>

theorem first_flow_bar_not_flagged:
  assumes "enhanceData bars = Inr ebs" and "i < length bars"
    and "agg_Transactions (bars ! i) > 0"
    and "\<forall>j < i. agg_Transactions (bars ! j) \<le> 0"
  shows "vpt_history (take (Suc i) bars) = [vpt_of (bars ! i)]
       \<and> percentile90 [vpt_of (bars ! i)] = vpt_of (bars ! i)
       \<and> \<not> InstitutionalFlow (ebs ! i)"
proof -
  have "filter (\<lambda>a. agg_Transactions a > 0) (take i bars) = []"
    using assms(2,4) by (fastforce simp: filter_empty_conv in_set_conv_nth)
  then have h0: "vpt_history (take i bars) = []" by (simp add: vpt_history_def)
  have sn: "take i bars @ [bars ! i] = take (Suc i) bars"
    using assms(2) by (rule take_Suc_snoc)
  have h: "vpt_history (take (Suc i) bars) = [vpt_of (bars ! i)]"
    using vpt_history_snoc [of "take i bars" "bars ! i"] assms(3) h0 by (simp add: sn)
  have p: "percentile90 [vpt_of (bars ! i)] = vpt_of (bars ! i)"
    by (simp add: percentile90_def)
  have "ebs = enriched_bars bars" using assms(1) by (simp add: enhanceData_enriched)
  then have "\<not> InstitutionalFlow (ebs ! i)"
    using assms(2) by (simp add: enriched_bars_nth enriched_flow sn h p)
  then show ?thesis using h p by simp
qed


lemma sample_bar_simps [simp]:
  "agg_Open (sample_bar opn cls hi lo vol tx vw) = opn"
  "agg_Close (sample_bar opn cls hi lo vol tx vw) = cls"
  "agg_High (sample_bar opn cls hi lo vol tx vw) = hi"
  "agg_Low (sample_bar opn cls hi lo vol tx vw) = lo"
  "agg_Volume (sample_bar opn cls hi lo vol tx vw) = vol"
  "agg_Transactions (sample_bar opn cls hi lo vol tx vw) = tx"
  "agg_VWAP (sample_bar opn cls hi lo vol tx vw) = vw"
  "agg_Timestamp (sample_bar opn cls hi lo vol tx vw) = 0"
  by (simp_all add: sample_bar_def)

theorem first_flow_bar_not_flagged_witness:
  "(1::nat) < length [sample_bar 5 5 5 5 0 0 5, sample_bar 5 5 5 5 100 4 5]
   \<and> agg_Transactions ([sample_bar 5 5 5 5 0 0 5, sample_bar 5 5 5 5 100 4 5] ! 1) > 0
   \<and> agg_Transactions ([sample_bar 5 5 5 5 0 0 5, sample_bar 5 5 5 5 100 4 5] ! 0) \<le> 0
   \<and> (\<exists>ebs. enhanceData [sample_bar 5 5 5 5 0 0 5, sample_bar 5 5 5 5 100 4 5] = Inr ebs
         \<and> \<not> InstitutionalFlow (ebs ! 1))"
proof -
  let ?bars = "[sample_bar 5 5 5 5 0 0 5, sample_bar 5 5 5 5 100 4 5]"
  have h1: "(1::nat) < length ?bars" by simp
  have h2: "agg_Transactions (?bars ! 1) > 0" by simp
  have h3: "\<forall>j < 1. agg_Transactions (?bars ! j) \<le> 0" by simp
  obtain ebs where e: "enhanceData ?bars = Inr ebs"
    using enhanceData_enriched by blast
  have "\<not> InstitutionalFlow (ebs ! 1)"
    using first_flow_bar_not_flagged [OF e h1 h2 h3] by blast
  then show ?thesis using e by auto
qed

theorem enhanceData_institutional_flow_witness:
  "\<exists>ebs. enhanceData [sample_bar 5 5 5 5 10 2 5, sample_bar 5 5 5 5 40 4 5, sample_bar 5 5 5 5 14 2 5] = Inr ebs
      \<and> \<not> InstitutionalFlow (ebs ! 0) \<and> InstitutionalFlow (ebs ! 1) \<and> \<not> InstitutionalFlow (ebs ! 2)"
proof -
  let ?bars = "[sample_bar 5 5 5 5 10 2 5, sample_bar 5 5 5 5 40 4 5, sample_bar 5 5 5 5 14 2 5]"
  from enhanceData_institutional_flow [of ?bars] obtain ebs where
    e: "enhanceData ?bars = Inr ebs"
    and f: "\<forall>i < length ?bars. agg_Transactions (?bars ! i) > 0 \<longrightarrow>
          (InstitutionalFlow (ebs ! i) \<longleftrightarrow>
                vpt_of (?bars ! i) > percentile90 (vpt_history (take (Suc i) ?bars)))"
    by blast
  have "\<not> InstitutionalFlow (ebs ! 0)"
    using f [rule_format, of 0] by (simp add: vpt_history_def vpt_of_def percentile90_def)
  moreover have "InstitutionalFlow (ebs ! 1)"
    using f [rule_format, of 1] by (simp add: vpt_history_def vpt_of_def percentile90_def)
  moreover have "\<not> InstitutionalFlow (ebs ! 2)"
    using f [rule_format, of 2] by (simp add: vpt_history_def vpt_of_def percentile90_def)
  ultimately show ?thesis using e by blast
qed


section \<open>Properties of the signal generator\<close>

lemma signal_step_skip: "i < 3 \<Longrightarrow> signal_step env bars signals i = signals"
  by (simp add: signal_step_def)

lemma signal_step_fired:
  "3 \<le> i \<Longrightarrow> signal_step env bars signals i = signals @ fired env bars i"
  by (simp add: signal_step_def fired_def rules_def Let_def)

lemma foldl_skip:
  "\<forall>i \<in> set is. i < 3 \<Longrightarrow> foldl (signal_step env bars) signals is = signals"
  by (induction "is" arbitrary: signals) (simp_all add: signal_step_skip)

lemma foldl_fired:
  "\<forall>i \<in> set is. 3 \<le> i \<Longrightarrow>
     foldl (signal_step env bars) signals is = signals @ concat (map (fired env bars) is)"
  by (induction "is" arbitrary: signals) (simp_all add: signal_step_fired)

lemma upt_split3: "[0..<n] = [0..<min 3 n] @ [3..<n]"
proof (cases "n \<le> 3")
  case True
  then show ?thesis by simp
next
  case False
  then have "[0..<n] = [0..<3] @ [3..<n]"
    using upt_add_eq_append [of 0 3 "n - 3"] by simp
  then show ?thesis using False by simp
qed

text \<open>The loop emits, for each index from 3 on, the fired rules of that bar in rule order.\<close>

lemma generateSignals_fired:
  "generateSignals env bars = concat (map (fired env bars) [3..<length bars])"
proof -
  have "generateSignals env bars
          = foldl (signal_step env bars)
              (foldl (signal_step env bars) [] [0..<min 3 (length bars)]) [3..<length bars]"
    unfolding generateSignals_def by (subst upt_split3) simp
  also have "foldl (signal_step env bars) [] [0..<min 3 (length bars)] = []"
    by (rule foldl_skip) simp
  also have "foldl (signal_step env bars) [] [3..<length bars]
               = [] @ concat (map (fired env bars) [3..<length bars])"
    by (rule foldl_fired) simp
  finally show ?thesis by simp
qed

lemma rules_7_8_exclusive:
  "\<not> (fst (rules env bars i ! 6) \<and> fst (rules env bars i ! 7))"
  by (simp add: rules_def Let_def)

lemma generateSignals_short: "length bars \<le> 3 \<Longrightarrow> generateSignals env bars = []"
  by (simp add: generateSignals_fired)

text \<open>
  Claim C6. The loop body leaves the signals as they are at the indices 0, 1 and 2, and at
  every later index appends the messages of the rules that hold, in the rule order 1 to 8
  (doji, bearish engulfing, bullish engulfing, volume-spike sell, volume-spike buy,
  volatility expansion, directional buy, directional sell). So the first three bars give
  no signal, the output is the concatenation over the indices from 3 on, and the
  conditions of rules 7 and 8 never hold together.
\<close>

theorem generateSignals_rule_order:
  "(\<forall>signals i. i < 3 \<longrightarrow> signal_step env bars signals i = signals)
   \<and> (\<forall>signals i. 3 \<le> i \<longrightarrow>
          signal_step env bars signals i = signals @ fired env bars i)
   \<and> generateSignals env (take 3 bars) = []
   \<and> generateSignals env bars = concat (map (fired env bars) [3..<length bars])
   \<and> (\<forall>i. \<not> (fst (rules env bars i ! 6) \<and> fst (rules env bars i ! 7)))"
  using signal_step_skip signal_step_fired generateSignals_fired rules_7_8_exclusive
    generateSignals_short [of "take 3 bars" env]
  by simp

theorem generateSignals_rule_order_witness:
  "generateSignals sample_fmt [busy_bar, busy_bar, busy_bar, busy_bar, quiet_bar]
     = [msg_doji sample_fmt busy_bar, msg_bullish sample_fmt busy_bar,
        msg_spike_buy sample_fmt busy_bar, msg_up sample_fmt busy_bar]
   \<and> signal_step sample_fmt [busy_bar, busy_bar, busy_bar, busy_bar, quiet_bar] [] 2 = []
   \<and> signal_step sample_fmt [busy_bar, busy_bar, busy_bar, busy_bar, quiet_bar] [] 3
       = [msg_doji sample_fmt busy_bar, msg_bullish sample_fmt busy_bar,
          msg_spike_buy sample_fmt busy_bar, msg_up sample_fmt busy_bar]"
proof -
  let ?bars = "[busy_bar, busy_bar, busy_bar, busy_bar, quiet_bar]"
  note t = generateSignals_rule_order [of sample_fmt ?bars]
  have u: "[3..<length ?bars] = [3, 4]" by (simp add: upt_rec)
  have f3: "fired sample_fmt ?bars 3
       = [msg_doji sample_fmt busy_bar, msg_bullish sample_fmt busy_bar,
          msg_spike_buy sample_fmt busy_bar, msg_up sample_fmt busy_bar]"
    by (simp add: fired_def rules_def Let_def busy_bar_def quiet_bar_def)
  have f4: "fired sample_fmt ?bars 4 = []"
    by (simp add: fired_def rules_def Let_def busy_bar_def quiet_bar_def)
  have s2: "signal_step sample_fmt ?bars [] 2 = []" using t by simp
  have "signal_step sample_fmt ?bars [] 3 = [] @ fired sample_fmt ?bars 3"
    using t by simp
  then have s3: "signal_step sample_fmt ?bars [] 3
       = [msg_doji sample_fmt busy_bar, msg_bullish sample_fmt busy_bar,
          msg_spike_buy sample_fmt busy_bar, msg_up sample_fmt busy_bar]"
    by (simp only: f3 append_Nil)
  have "generateSignals sample_fmt ?bars
      = concat (map (fired sample_fmt ?bars) [3..<length ?bars])"
    using t by blast
  then have g: "generateSignals sample_fmt ?bars
       = [msg_doji sample_fmt busy_bar, msg_bullish sample_fmt busy_bar,
          msg_spike_buy sample_fmt busy_bar, msg_up sample_fmt busy_bar]"
    by (simp only: u list.map concat.simps f3 f4 append_Nil2)
  show ?thesis using g s2 s3 by blast
qed


section \<open>Properties of the analysis run\<close>

lemma GetPolygonAggregate_iter_env:
  "GetPolygonAggregate (iter_env bars err) (NewStockTechnicalService (iter_env bars err) tick)
     tspan ''2025-01-15'' ''2025-01-16'' mul = Inr \<lparr>yielded = bars, iter_err = err\<rparr>"
  by (simp add: GetPolygonAggregate_def iter_env_def sample_Parse_def)

text \<open>
  The only error of the market-data call is a date that does not parse, and on it the
  run does not return: \<^verbatim>\<open>log.Fatal\<close> ends the process.
\<close>

lemma AnalyseMain_parse_error:
  "time_Parse env ''2006-01-02'' (startDuration s) = Inl err \<Longrightarrow>
   AnalyseMain env s db = (Exit err, db)"
  by (simp add: AnalyseMain_def GetPolygonAggregate_def)

text \<open>
  Claim C2. When the market-data call yields bars, the enriched bar list is not empty and
  no signal is generated, the run returns the error \<^verbatim>\<open>no signals or enhanced bars\<close> and
  leaves the database as it was: \<^verbatim>\<open>db.Create\<close> is not called and nothing is stored. The
  guard of \<^verbatim>\<open>storeSignalsInDatabase\<close> refuses an empty signal list in the same way.
\<close>

theorem AnalyseMain_no_signals:
  assumes "GetPolygonAggregate env (NewStockTechnicalService env (ticker s)) (timeSpan s)
             (startDuration s) (endDuration s) (multiplier s) = Inr bars"
    and "enhanceData (yielded bars) = Inr ebs"
    and "ebs \<noteq> []"
    and "generateSignals (formats env) ebs = []"
  shows "AnalyseMain env s db = (Return (Some ''no signals or enhanced bars''), db)
       \<and> create_calls (snd (AnalyseMain env s db)) = create_calls db
       \<and> stored (snd (AnalyseMain env s db)) = stored db
       \<and> storeSignalsInDatabase env s db ebs [] (ticker s) = (Some ''no bars or signals'', db)"
  using assms by (simp add: AnalyseMain_def storeSignalsInDatabase_def)

theorem AnalyseMain_no_signals_witness:
  "GetPolygonAggregate one_bar_env (NewStockTechnicalService one_bar_env (ticker sample_service))
     (timeSpan sample_service) (startDuration sample_service) (endDuration sample_service)
     (multiplier sample_service)
     = Inr \<lparr>yielded = [sample_bar 5 5 5 5 100 4 5], iter_err = None\<rparr>
   \<and> enhanceData [sample_bar 5 5 5 5 100 4 5] = Inr (enriched_bars [sample_bar 5 5 5 5 100 4 5])
   \<and> enriched_bars [sample_bar 5 5 5 5 100 4 5] \<noteq> []
   \<and> generateSignals (formats one_bar_env) (enriched_bars [sample_bar 5 5 5 5 100 4 5]) = []
   \<and> AnalyseMain one_bar_env sample_service empty_db
       = (Return (Some ''no signals or enhanced bars''), empty_db)"
proof -
  let ?bars = "[sample_bar 5 5 5 5 100 4 5]"
  let ?it = "\<lparr>yielded = ?bars, iter_err = None\<rparr>"
  have h1: "GetPolygonAggregate one_bar_env
     (NewStockTechnicalService one_bar_env (ticker sample_service))
     (timeSpan sample_service) (startDuration sample_service) (endDuration sample_service)
     (multiplier sample_service) = Inr ?it"
    by (simp add: one_bar_env_def sample_service_def GetPolygonAggregate_iter_env)
  have h2: "enhanceData (yielded ?it) = Inr (enriched_bars ?bars)"
    by (simp add: enhanceData_enriched)
  have h3: "enriched_bars ?bars \<noteq> []"
    by (simp add: enriched_bars_def)
  have h4: "generateSignals (formats one_bar_env) (enriched_bars ?bars) = []"
    by (rule generateSignals_short) (simp add: length_enriched_bars)
  show ?thesis
    using AnalyseMain_no_signals [OF h1 h2 h3 h4, of empty_db] h1 h2 h3 h4 by simp
qed






section \<open>Properties of the running VWAP in float64\<close>

subsection \<open>Evaluating the rounding\<close>


lemma round_even_of_int [simp]: "round_even (real_of_int m) = m"
  by (simp add: round_even_def)

text \<open>
  A real that is a multiple of the spacing at its exponent, below the overflow threshold,
  rounds to itself.
\<close>

lemma round64_multiple:
  assumes "x / ulp x = real_of_int m" and "\<bar>x\<bar> < 2 powr 1024"
  shows "round64 x = Fin x"
proof (cases "x = 0")
  case True
  then show ?thesis by (simp add: round64_def)
next
  case False
  have "0 < ulp x" by (simp add: ulp_def)
  then have "real_of_int m * ulp x = x" using assms(1) by (simp add: field_simps)
  then show ?thesis using False assms by (simp add: round64_def Let_def)
qed

text \<open>Every integer of magnitude below \<open>2^53\<close> is a binary64 value.\<close>

lemma is_float64_int_below:
  assumes "k \<le> 53" and "\<bar>n\<bar> < 2 ^ k"
  shows "is_float64 (real_of_int n)"
proof (cases "n = 0")
  case True
  then show ?thesis by (simp add: is_float64_def round64_def)
next
  case False
  let ?x = "real_of_int n"
  define e where "e = \<lfloor>log 2 \<bar>?x\<bar>\<rfloor>"
  have "1 \<le> \<bar>n\<bar>" using False by simp
  then have "real_of_int 1 \<le> real_of_int \<bar>n\<bar>" by (simp only: of_int_le_iff)
  then have a1: "1 \<le> \<bar>?x\<bar>" by simp
  have "real_of_int \<bar>n\<bar> < real_of_int (2 ^ k)" using assms(2) by (simp only: of_int_less_iff)
  then have a2: "\<bar>?x\<bar> < 2 ^ k" by simp
  have e0: "0 \<le> e" unfolding e_def using a1 by (simp add: zero_le_log_cancel_iff)
  have "log 2 \<bar>?x\<bar> < log 2 (2 ^ k)" using a1 a2 by (subst log_less_cancel_iff) simp_all
  then have "log 2 \<bar>?x\<bar> < real k" by (simp add: log_nat_power)
  then have "e < int k" unfolding e_def by linarith
  then have e52: "e \<le> 52" using assms(1) by simp
  have ex: "expo ?x = e" unfolding expo_def e_def [symmetric] using e0 by simp
  have u: "ulp ?x = 1 / 2 ^ nat (52 - e)"
  proof -
    have eq: "real_of_int (e - 52) = - real (nat (52 - e))" using e52 by simp
    have "ulp ?x = 2 powr real_of_int (e - 52)" by (simp only: ulp_def ex)
    also have "\<dots> = 2 powr (- real (nat (52 - e)))" by (simp only: eq)
    finally show ?thesis by (simp add: powr_minus powr_realpow divide_inverse)
  qed
  have "?x / ulp ?x = real_of_int (n * 2 ^ nat (52 - e))" by (simp add: u)
  moreover have "\<bar>?x\<bar> < 2 powr 1024"
  proof -
    have "(2::real) powr real k \<le> 2 powr 1024" using assms(1) by (intro powr_mono) simp_all
    moreover have "(2::real) powr real k = 2 ^ k" by (simp add: powr_realpow)
    ultimately show ?thesis using a2 by linarith
  qed
  ultimately show ?thesis unfolding is_float64_def by (rule round64_multiple)
qed

lemma is_float64_numeral: "numeral w < (2::int) ^ 53 \<Longrightarrow> is_float64 (numeral w)"
  using is_float64_int_below [of 53 "numeral w"] by simp

lemma is_float64_zero [simp]: "is_float64 0"
  by (simp add: is_float64_def round64_def)







lemma round64_numeral [simp]: "numeral w < (2::int) ^ 53 \<Longrightarrow> round64 (numeral w) = Fin (numeral w)"
  using is_float64_numeral [of w] by (simp add: is_float64_def)

lemma round64_zero [simp]: "round64 0 = Fin 0"
  by (simp add: round64_def)

subsection \<open>The loop in closed form\<close>










subsection \<open>A raw vwap of 0.1\<close>










section \<open>Properties of the fan-out\<close>

subsection \<open>The invariant is kept by every step\<close>

lemma filter_length_update:
  "i < length ts \<Longrightarrow>
     length (filter P (ts[i := g])) + (if P (ts ! i) then 1 else 0)
       = length (filter P ts) + (if P g then 1 else 0)"
proof (induction ts arbitrary: i)
  case Nil
  then show ?case by simp
next
  case (Cons a ts)
  then show ?case by (cases i) auto
qed

lemma filter_length_pos: "i < length ts \<Longrightarrow> P (ts ! i) \<Longrightarrow> 0 < length (filter P ts)"
  by (metis filter_empty_conv length_greater_0_conv nth_mem)

lemma sum_list_map_update:
  "i < length ts \<Longrightarrow>
     sum_list (map f (ts[i := g])) + f (ts ! i) = sum_list (map f ts) + (f g :: nat)"
proof (induction ts arbitrary: i)
  case Nil
  then show ?case by simp
next
  case (Cons a ts)
  then show ?case by (cases i) auto
qed

lemma index_set_update:
  "i < length ts \<Longrightarrow>
     {j. j < length (ts[i := g]) \<and> A (ts[i := g] ! j)}
       = (if A g then insert i {j. j < length ts \<and> A (ts ! j)}
          else {j. j < length ts \<and> A (ts ! j)} - {i})"
  by (auto simp: nth_list_update)

lemma index_set_snoc:
  "{j. j < length (ts @ [g]) \<and> A ((ts @ [g]) ! j)}
       = (if A g then insert (length ts) {j. j < length ts \<and> A (ts ! j)}
          else {j. j < length ts \<and> A (ts ! j)})"
  by (auto simp: nth_append less_Suc_eq)

lemma fan_inv_initial: "fan_inv b initial_fan"
  by (simp add: fan_inv_def initial_fan_def)

lemma fan_invD:
  assumes "fan_inv b s"
  shows "\<not> crashed s"
    and "main_pos (length (earnings b)) (length (tasks s)) (main s)"
    and "wg s = int (length (filter unfinished (tasks s))) + pending (main s)"
    and "main s = MDone \<longrightarrow> wg s = 0"
    and "response s
         = (if main s = MDone then Some (build_response (dateStr b) (results s)) else None)"
    and "semaphore s = length (filter holding (tasks s))"
    and "semaphore s \<le> 5"
    and "length (filter in_mutex (tasks s)) = (if mu s then 1 else 0)"
    and "\<forall>i < length (tasks s). carries b i (tasks s ! i)"
    and "\<exists>order. distinct order
           \<and> set order = {i. i < length (tasks s) \<and> appended (tasks s ! i)}
           \<and> results s = map (task_result b) order"
  using assms unfolding fan_inv_def by blast+

lemma fan_invI:
  assumes "\<not> crashed s"
    and "main_pos (length (earnings b)) (length (tasks s)) (main s)"
    and "wg s = int (length (filter unfinished (tasks s))) + pending (main s)"
    and "main s = MDone \<longrightarrow> wg s = 0"
    and "response s
         = (if main s = MDone then Some (build_response (dateStr b) (results s)) else None)"
    and "semaphore s = length (filter holding (tasks s))"
    and "semaphore s \<le> 5"
    and "length (filter in_mutex (tasks s)) = (if mu s then 1 else 0)"
    and "\<forall>i < length (tasks s). carries b i (tasks s ! i)"
    and "\<exists>order. distinct order
           \<and> set order = {i. i < length (tasks s) \<and> appended (tasks s ! i)}
           \<and> results s = map (task_result b) order"
  shows "fan_inv b s"
  using assms unfolding fan_inv_def by blast

text \<open>A goroutine that has not finished keeps the handler before the end.\<close>

lemma unfinished_not_done:
  assumes "fan_inv b s" and "i < length (tasks s)" and "unfinished (tasks s ! i)"
  shows "main s \<noteq> MDone"
proof
  assume d: "main s = MDone"
  have "0 < length (filter unfinished (tasks s))"
    using assms(2,3) by (rule filter_length_pos)
  moreover have "wg s = int (length (filter unfinished (tasks s)))"
    using fan_invD(3) [OF assms(1)] d by simp
  moreover have "wg s = 0" using fan_invD(4) [OF assms(1)] d by simp
  ultimately show False by simp
qed

text \<open>The effect of a step of goroutine \<open>i\<close> from \<open>g0\<close> to \<open>g\<close> on the invariant.\<close>

lemma fan_inv_task_update:
  assumes inv: "fan_inv b s" and i: "i < length (tasks s)"
    and g0: "unfinished (tasks s ! i)"
    and t: "tasks s' = (tasks s)[i := g]"
    and m: "main s' = main s" and c: "crashed s' = crashed s" and su: "response s' = response s"
    and w: "wg s' + (if unfinished (tasks s ! i) then 1 else 0)
              = wg s + (if unfinished g then 1 else 0)"
    and se: "semaphore s' + (if holding (tasks s ! i) then 1 else 0)
              = semaphore s + (if holding g then 1 else 0)"
    and se5: "semaphore s' \<le> 5"
    and l: "(if mu s' then 1 else 0) + (if in_mutex (tasks s ! i) then 1 else (0::nat))
              = (if mu s then 1 else 0) + (if in_mutex g then 1 else 0)"
    and ca: "carries b i g"
    and r: "if appended g \<and> \<not> appended (tasks s ! i)
            then results s' = results s @ [task_result b i]
            else results s' = results s \<and> (appended g \<longleftrightarrow> appended (tasks s ! i))"
  shows "fan_inv b s'"
proof (rule fan_invI)
  note d = fan_invD [OF inv]
  have nd: "main s \<noteq> MDone" using inv i g0 by (rule unfinished_not_done)
  show "\<not> crashed s'" using d(1) c by simp
  show "main_pos (length (earnings b)) (length (tasks s')) (main s')"
    using d(2) t m by simp
  show "wg s' = int (length (filter unfinished (tasks s'))) + pending (main s')"
    using d(3) w filter_length_update [OF i, of unfinished g] t m
    by (simp split: if_splits)
  show "main s' = MDone \<longrightarrow> wg s' = 0" using nd m by simp
  show "response s'
         = (if main s' = MDone then Some (build_response (dateStr b) (results s')) else None)"
    using d(5) nd m su by simp
  show "semaphore s' = length (filter holding (tasks s'))"
    using d(6) se filter_length_update [OF i, of holding g] t
    by (simp split: if_splits)
  show "semaphore s' \<le> 5" by (rule se5)
  show "length (filter in_mutex (tasks s')) = (if mu s' then 1 else 0)"
    using d(8) l filter_length_update [OF i, of in_mutex g] t
    by (simp split: if_splits)
  show "\<forall>j < length (tasks s'). carries b j (tasks s' ! j)"
    using d(9) ca t i by (auto simp: nth_list_update)
  from d(10) obtain order where o: "distinct order"
    "set order = {j. j < length (tasks s) \<and> appended (tasks s ! j)}"
    "results s = map (task_result b) order" by blast
  show "\<exists>order. distinct order
           \<and> set order = {j. j < length (tasks s') \<and> appended (tasks s' ! j)}
           \<and> results s' = map (task_result b) order"
  proof (cases "appended g \<and> \<not> appended (tasks s ! i)")
    case True
    then have rs: "results s' = map (task_result b) (order @ [i])" using r o(3) by simp
    have "i \<notin> set order" using True o(2) by simp
    then have "distinct (order @ [i])" using o(1) by simp
    moreover have "set (order @ [i]) = {j. j < length (tasks s') \<and> appended (tasks s' ! j)}"
      using index_set_update [OF i, of g appended] True o(2) by (simp add: t)
    ultimately show ?thesis using rs by blast
  next
    case False
    then have rs: "results s' = results s" and a: "appended g \<longleftrightarrow> appended (tasks s ! i)"
      using r by simp_all
    have "{j. j < length (tasks s') \<and> appended (tasks s' ! j)}
            = {j. j < length (tasks s) \<and> appended (tasks s ! j)}"
      using a i by (auto simp: t nth_list_update)
    then show ?thesis using o rs by auto
  qed
qed

lemma task_step_inv:
  assumes inv: "fan_inv b s" and st: "task_step b s i = Some s'"
  shows "fan_inv b s' \<and> steps_left b s' + 1 = steps_left b s"
proof -
  note d = fan_invD [OF inv]
  have i: "i < length (tasks s)"
    using st by (simp add: task_step_def split: if_splits)
  have car: "carries b i (tasks s ! i)" using d(9) i by simp
  note rk = sum_list_map_update [OF i, of task_rank]
  show ?thesis
  proof (cases "tasks s ! i")
    case (GAcquire e)
    then have lt: "semaphore s < 5"
      and s': "s' = s\<lparr>semaphore := semaphore s + 1, tasks := (tasks s)[i := GLookup e]\<rparr>"
      using st i by (simp_all add: task_step_def split: if_splits)
    have "fan_inv b s'"
      using inv i by (rule fan_inv_task_update [where g = "GLookup e"])
         (use GAcquire lt car in \<open>simp_all add: s'\<close>)
    moreover have "steps_left b s' + 1 = steps_left b s"
      using rk [of "GLookup e"] by (simp add: steps_left_def s' GAcquire)
    ultimately show ?thesis by simp
  next
    case (GLookup e)
    then have s': "s' = s\<lparr>tasks := (tasks s)
                   [i := GLock (analyzeTickerBigMoney (env_of b i) (handler b) e
                                  (analysisDate b) (largeThreshold b))]\<rparr>"
      using st i by (simp add: task_step_def)
    have e: "e = earnings b ! i" using car GLookup by simp
    have "fan_inv b s'"
      using inv i
      by (rule fan_inv_task_update [where g = "GLock (analyzeTickerBigMoney (env_of b i) (handler b) e
                                  (analysisDate b) (largeThreshold b))"])
         (use GLookup d(7) e in \<open>simp_all add: s' task_result_def\<close>)
    moreover have "steps_left b s' + 1 = steps_left b s"
      using rk [of "GLock (analyzeTickerBigMoney (env_of b i) (handler b) e
                                  (analysisDate b) (largeThreshold b))"]
      by (simp add: steps_left_def s' GLookup)
    ultimately show ?thesis by simp
  next
    case (GLock r)
    then have free: "\<not> mu s"
      and s': "s' = s\<lparr>mu := True, tasks := (tasks s)[i := GAppend r]\<rparr>"
      using st i by (simp_all add: task_step_def split: if_splits)
    have "fan_inv b s'"
      using inv i
      by (rule fan_inv_task_update [where g = "GAppend r"])
         (use GLock d(7) free car in \<open>simp_all add: s'\<close>)
    moreover have "steps_left b s' + 1 = steps_left b s"
      using rk [of "GAppend r"] by (simp add: steps_left_def s' GLock)
    ultimately show ?thesis by simp
  next
    case (GAppend r)
    then have s': "s' = s\<lparr>results := results s @ [r], tasks := (tasks s)[i := GUnlock]\<rparr>"
      using st i by (simp add: task_step_def)
    have r: "r = task_result b i" using car GAppend by simp
    have "fan_inv b s'"
      using inv i
      by (rule fan_inv_task_update [where g = "GUnlock"])
         (use GAppend d(7) r in \<open>simp_all add: s'\<close>)
    moreover have "steps_left b s' + 1 = steps_left b s"
      using rk [of GUnlock] by (simp add: steps_left_def s' GAppend)
    ultimately show ?thesis by simp
  next
    case GUnlock
    have "0 < length (filter in_mutex (tasks s))"
      using i by (rule filter_length_pos) (simp add: GUnlock)
    then have locked: "mu s" using d(8) by (simp split: if_splits)
    then have s': "s' = s\<lparr>mu := False, tasks := (tasks s)[i := GRelease]\<rparr>"
      using st i GUnlock by (simp add: task_step_def)
    have "fan_inv b s'"
      using inv i
      by (rule fan_inv_task_update [where g = "GRelease"])
         (use GUnlock d(7) locked in \<open>simp_all add: s'\<close>)
    moreover have "steps_left b s' + 1 = steps_left b s"
      using rk [of GRelease] by (simp add: steps_left_def s' GUnlock)
    ultimately show ?thesis by simp
  next
    case GRelease
    then have pos: "0 < semaphore s"
      and s': "s' = s\<lparr>semaphore := semaphore s - 1, tasks := (tasks s)[i := GWgDone]\<rparr>"
      using st i by (simp_all add: task_step_def split: if_splits)
    have "fan_inv b s'"
      using inv i
      by (rule fan_inv_task_update [where g = "GWgDone"])
         (use GRelease d(7) pos in \<open>simp_all add: s'\<close>)
    moreover have "steps_left b s' + 1 = steps_left b s"
      using rk [of GWgDone] by (simp add: steps_left_def s' GRelease)
    ultimately show ?thesis by simp
  next
    case GWgDone
    have "0 < length (filter unfinished (tasks s))"
      using i by (rule filter_length_pos) (simp add: GWgDone)
    moreover have "0 \<le> pending (main s)" by (cases "main s") simp_all
    ultimately have "1 \<le> wg s" using d(3) by linarith
    then have s': "s' = s\<lparr>wg := wg s - 1, tasks := (tasks s)[i := GFinished]\<rparr>"
      using st i GWgDone by (simp add: task_step_def)
    have "fan_inv b s'"
      using inv i
      by (rule fan_inv_task_update [where g = "GFinished"])
         (use GWgDone d(7) in \<open>simp_all add: s'\<close>)
    moreover have "steps_left b s' + 1 = steps_left b s"
      using rk [of GFinished] by (simp add: steps_left_def s' GWgDone)
    ultimately show ?thesis by simp
  next
    case GFinished
    then show ?thesis using st i by (simp add: task_step_def)
  qed
qed

lemma main_step_inv:
  assumes inv: "fan_inv b s" and st: "main_step b s = Some s'"
  shows "fan_inv b s' \<and> steps_left b s' + 1 = steps_left b s"
proof -
  note d = fan_invD [OF inv]
  show ?thesis
  proof (cases "main s")
    case (MAdd i)
    show ?thesis
    proof (cases "i < length (earnings b)")
      case True
      then have s': "s' = s\<lparr>wg := wg s + 1, main := MGo i\<rparr>"
        using st MAdd by (simp add: main_step_def)
      have "fan_inv b s'"
      proof (rule fan_invI)
        show "\<not> crashed s'" using d(1) by (simp add: s')
        show "main_pos (length (earnings b)) (length (tasks s')) (main s')"
          using d(2) True MAdd by (simp add: s')
        show "wg s' = int (length (filter unfinished (tasks s'))) + pending (main s')"
          using d(3) MAdd by (simp add: s')
        show "main s' = MDone \<longrightarrow> wg s' = 0" by (simp add: s')
        show "response s'
         = (if main s' = MDone then Some (build_response (dateStr b) (results s')) else None)"
          using d(5) MAdd by (simp add: s')
        show "semaphore s' = length (filter holding (tasks s'))" using d(6) by (simp add: s')
        show "semaphore s' \<le> 5" using d(7) by (simp add: s')
        show "length (filter in_mutex (tasks s')) = (if mu s' then 1 else 0)"
          using d(8) by (simp add: s')
        show "\<forall>i < length (tasks s'). carries b i (tasks s' ! i)"
          using d(9) by (simp add: s')
        show "\<exists>order. distinct order
           \<and> set order = {i. i < length (tasks s') \<and> appended (tasks s' ! i)}
           \<and> results s' = map (task_result b) order"
          using d(10) by (simp add: s')
      qed
      moreover have "steps_left b s' + 1 = steps_left b s"
        using MAdd by (simp add: steps_left_def s')
      ultimately show ?thesis by simp
    next
      case False
      then have s': "s' = s\<lparr>main := MWait\<rparr>"
        using st MAdd by (simp add: main_step_def)
      have n: "i = length (earnings b)" using d(2) MAdd False by simp
      have "fan_inv b s'"
      proof (rule fan_invI)
        show "\<not> crashed s'" using d(1) by (simp add: s')
        show "main_pos (length (earnings b)) (length (tasks s')) (main s')"
          using d(2) n MAdd by (simp add: s')
        show "wg s' = int (length (filter unfinished (tasks s'))) + pending (main s')"
          using d(3) MAdd by (simp add: s')
        show "main s' = MDone \<longrightarrow> wg s' = 0" by (simp add: s')
        show "response s'
         = (if main s' = MDone then Some (build_response (dateStr b) (results s')) else None)"
          using d(5) MAdd by (simp add: s')
        show "semaphore s' = length (filter holding (tasks s'))" using d(6) by (simp add: s')
        show "semaphore s' \<le> 5" using d(7) by (simp add: s')
        show "length (filter in_mutex (tasks s')) = (if mu s' then 1 else 0)"
          using d(8) by (simp add: s')
        show "\<forall>i < length (tasks s'). carries b i (tasks s' ! i)"
          using d(9) by (simp add: s')
        show "\<exists>order. distinct order
           \<and> set order = {i. i < length (tasks s') \<and> appended (tasks s' ! i)}
           \<and> results s' = map (task_result b) order"
          using d(10) by (simp add: s')
      qed
      moreover have "steps_left b s' + 1 = steps_left b s"
        using MAdd n by (simp add: steps_left_def s')
      ultimately show ?thesis by simp
    qed
  next
    case (MGo i)
    then have s': "s' = s\<lparr>tasks := tasks s @ [GAcquire (earnings b ! i)], main := MAdd (i + 1)\<rparr>"
      using st by (simp add: main_step_def)
    have len: "length (tasks s) = i" and lt: "i < length (earnings b)"
      using d(2) MGo by simp_all
    have "fan_inv b s'"
    proof (rule fan_invI)
      show "\<not> crashed s'" using d(1) by (simp add: s')
      show "main_pos (length (earnings b)) (length (tasks s')) (main s')"
        using len lt by (simp add: s')
      show "wg s' = int (length (filter unfinished (tasks s'))) + pending (main s')"
        using d(3) MGo by (simp add: s')
      show "main s' = MDone \<longrightarrow> wg s' = 0" by (simp add: s')
      show "response s'
         = (if main s' = MDone then Some (build_response (dateStr b) (results s')) else None)"
        using d(5) MGo by (simp add: s')
      show "semaphore s' = length (filter holding (tasks s'))" using d(6) by (simp add: s')
      show "semaphore s' \<le> 5" using d(7) by (simp add: s')
      show "length (filter in_mutex (tasks s')) = (if mu s' then 1 else 0)"
        using d(8) by (simp add: s')
      show "\<forall>j < length (tasks s'). carries b j (tasks s' ! j)"
        using d(9) len by (auto simp: s' nth_append less_Suc_eq)
      have "{j. j < length (tasks s') \<and> appended (tasks s' ! j)}
              = {j. j < length (tasks s) \<and> appended (tasks s ! j)}"
        using index_set_snoc [of "tasks s" "GAcquire (earnings b ! i)" appended]
        by (simp add: s')
      then show "\<exists>order. distinct order
           \<and> set order = {j. j < length (tasks s') \<and> appended (tasks s' ! j)}
           \<and> results s' = map (task_result b) order"
        using d(10) by (simp add: s')
    qed
    moreover have "steps_left b s' + 1 = steps_left b s"
    proof -
      have "7 * (length (earnings b) - i) = 7 + 7 * (length (earnings b) - Suc i)"
        using lt by simp
      moreover have "2 * (length (earnings b) - i) = 2 + 2 * (length (earnings b) - Suc i)"
        using lt by simp
      ultimately show ?thesis using MGo len by (simp add: steps_left_def s')
    qed
    ultimately show ?thesis by simp
  next
    case MWait
    then have z: "wg s = 0"
      and s': "s' = s\<lparr>response := Some (build_response (dateStr b) (results s)), main := MDone\<rparr>"
      using st by (simp_all add: main_step_def split: if_splits)
    have "fan_inv b s'"
    proof (rule fan_invI)
      show "\<not> crashed s'" using d(1) by (simp add: s')
      show "main_pos (length (earnings b)) (length (tasks s')) (main s')"
        using d(2) MWait by (simp add: s')
      show "wg s' = int (length (filter unfinished (tasks s'))) + pending (main s')"
        using d(3) MWait by (simp add: s')
      show "main s' = MDone \<longrightarrow> wg s' = 0" using z by (simp add: s')
      show "response s'
         = (if main s' = MDone then Some (build_response (dateStr b) (results s')) else None)"
        by (simp add: s')
      show "semaphore s' = length (filter holding (tasks s'))" using d(6) by (simp add: s')
      show "semaphore s' \<le> 5" using d(7) by (simp add: s')
      show "length (filter in_mutex (tasks s')) = (if mu s' then 1 else 0)"
        using d(8) by (simp add: s')
      show "\<forall>i < length (tasks s'). carries b i (tasks s' ! i)"
        using d(9) by (simp add: s')
      show "\<exists>order. distinct order
           \<and> set order = {i. i < length (tasks s') \<and> appended (tasks s' ! i)}
           \<and> results s' = map (task_result b) order"
        using d(10) by (simp add: s')
    qed
    moreover have "steps_left b s' + 1 = steps_left b s"
      using MWait by (simp add: steps_left_def s')
    ultimately show ?thesis by simp
  next
    case MDone
    then show ?thesis using st by (simp add: main_step_def)
  qed
qed

lemma thread_step_inv:
  assumes "fan_inv b s" and "thread_step b s t = Some s'"
  shows "fan_inv b s' \<and> steps_left b s' + 1 = steps_left b s"
proof (cases t)
  case Main
  then have "main_step b s = Some s'"
    using assms(2) by (simp add: thread_step_def split: if_splits)
  with assms(1) show ?thesis by (rule main_step_inv)
next
  case (Task i)
  then have "task_step b s i = Some s'"
    using assms(2) by (simp add: thread_step_def split: if_splits)
  with assms(1) show ?thesis by (rule task_step_inv)
qed

lemma run_inv:
  "fan_inv b s \<Longrightarrow> run b s ts = Some s' \<Longrightarrow>
     fan_inv b s' \<and> steps_left b s' + length ts = steps_left b s"
proof (induction ts arbitrary: s)
  case Nil
  then show ?case by simp
next
  case (Cons t ts)
  from Cons.prems(2) obtain s1 where 1: "thread_step b s t = Some s1" and 2: "run b s1 ts = Some s'"
    by (auto split: option.splits)
  from thread_step_inv [OF Cons.prems(1) 1] Cons.IH [OF _ 2] show ?case by simp
qed

lemma run_append:
  "run b s (ts @ us) = (case run b s ts of None \<Rightarrow> None | Some s' \<Rightarrow> run b s' us)"
  by (induction ts arbitrary: s) (auto split: option.splits)


subsection \<open>No deadlock, and every execution can be completed\<close>

lemma filter_empty_length: "(\<forall>i < length ts. \<not> P (ts ! i)) \<Longrightarrow> length (filter P ts) = 0"
proof -
  assume a: "\<forall>i < length ts. \<not> P (ts ! i)"
  have "\<forall>x \<in> set ts. \<not> P x"
  proof
    fix x assume "x \<in> set ts"
    then obtain i where "i < length ts" "ts ! i = x" by (auto simp: in_set_conv_nth)
    with a show "\<not> P x" by auto
  qed
  then show ?thesis by (simp add: filter_empty_conv)
qed

lemma task_step_enabled:
  assumes "i < length (tasks s)"
    and "case tasks s ! i of GAcquire e \<Rightarrow> semaphore s < 5 | GLock r \<Rightarrow> \<not> mu s
           | GRelease \<Rightarrow> 0 < semaphore s | GFinished \<Rightarrow> False | _ \<Rightarrow> True"
  shows "\<exists>s'. task_step b s i = Some s'"
  using assms by (simp add: task_step_def split: gstate.splits)

text \<open>
  While a goroutine has not finished, some goroutine can move: one that holds a slot and
  is not waiting for the mutex, or one at \<^verbatim>\<open>wg.Done()\<close>; failing these, one that waits
  for the mutex, which is then free; failing these, one that waits for a slot, and then
  all slots are free.
\<close>

lemma some_task_enabled:
  assumes inv: "fan_inv b s" and i: "i < length (tasks s)" and u: "unfinished (tasks s ! i)"
  shows "\<exists>j s'. task_step b s j = Some s'"
proof -
  note d = fan_invD [OF inv]
  let ?ts = "tasks s"
  consider
    (run) "\<exists>j < length ?ts. holding (?ts ! j) \<and> (\<forall>r. ?ts ! j \<noteq> GLock r)"
    | (wgdone) "\<exists>j < length ?ts. ?ts ! j = GWgDone"
    | (lock) "\<forall>j < length ?ts. holding (?ts ! j) \<longrightarrow> (\<exists>r. ?ts ! j = GLock r)"
        "\<exists>j < length ?ts. \<exists>r. ?ts ! j = GLock r"
    | (acquire) "\<forall>j < length ?ts. \<not> holding (?ts ! j)" "\<forall>j < length ?ts. ?ts ! j \<noteq> GWgDone"
    by blast
  then show ?thesis
  proof cases
    case run
    then obtain j where j: "j < length ?ts" "holding (?ts ! j)" "\<forall>r. ?ts ! j \<noteq> GLock r"
      by blast
    have "0 < length (filter holding ?ts)" using j(1,2) by (rule filter_length_pos)
    then have sem: "0 < semaphore s" using d(6) by simp
    have "case ?ts ! j of GAcquire e \<Rightarrow> semaphore s < 5 | GLock r \<Rightarrow> \<not> mu s
           | GRelease \<Rightarrow> 0 < semaphore s | GFinished \<Rightarrow> False | _ \<Rightarrow> True"
      using j(2,3) sem by (cases "?ts ! j") simp_all
    with j(1) show ?thesis using task_step_enabled by blast
  next
    case wgdone
    then obtain j where j: "j < length ?ts" "?ts ! j = GWgDone" by blast
    then have "case ?ts ! j of GAcquire e \<Rightarrow> semaphore s < 5 | GLock r \<Rightarrow> \<not> mu s
           | GRelease \<Rightarrow> 0 < semaphore s | GFinished \<Rightarrow> False | _ \<Rightarrow> True"
      by simp
    with j(1) show ?thesis using task_step_enabled by blast
  next
    case lock
    from lock(2) obtain j r where j: "j < length ?ts" "?ts ! j = GLock r" by blast
    have "\<forall>k < length ?ts. \<not> in_mutex (?ts ! k)"
    proof (intro allI impI)
      fix k assume k: "k < length ?ts"
      show "\<not> in_mutex (?ts ! k)"
        using lock(1) [rule_format, OF k] by (cases "?ts ! k") auto
    qed
    then have "length (filter in_mutex ?ts) = 0" by (rule filter_empty_length)
    then have "\<not> mu s" using d(8) by (simp split: if_splits)
    then have "case ?ts ! j of GAcquire e \<Rightarrow> semaphore s < 5 | GLock r \<Rightarrow> \<not> mu s
           | GRelease \<Rightarrow> 0 < semaphore s | GFinished \<Rightarrow> False | _ \<Rightarrow> True"
      using j(2) by simp
    with j(1) show ?thesis using task_step_enabled by blast
  next
    case acquire
    have "length (filter holding ?ts) = 0" using acquire(1) by (rule filter_empty_length)
    then have sem: "semaphore s = 0" using d(6) by simp
    have "\<exists>e. ?ts ! i = GAcquire e"
      using u acquire(1) [rule_format, OF i] acquire(2) [rule_format, OF i]
      by (cases "?ts ! i") simp_all
    then have "case ?ts ! i of GAcquire e \<Rightarrow> semaphore s < 5 | GLock r \<Rightarrow> \<not> mu s
           | GRelease \<Rightarrow> 0 < semaphore s | GFinished \<Rightarrow> False | _ \<Rightarrow> True"
      using sem by auto
    with i show ?thesis using task_step_enabled by blast
  qed
qed

lemma no_deadlock:
  assumes inv: "fan_inv b s" and nd: "main s \<noteq> MDone"
  shows "\<exists>t s'. thread_step b s t = Some s'"
proof -
  note d = fan_invD [OF inv]
  have nc: "\<not> crashed s" by (rule d(1))
  show ?thesis
  proof (cases "\<exists>s'. main_step b s = Some s'")
    case True
    then have "\<exists>s'. thread_step b s Main = Some s'" using nc by (simp add: thread_step_def)
    then show ?thesis by blast
  next
    case False
    then have w: "main s = MWait" and nz: "wg s \<noteq> 0"
      using nd by (cases "main s"; simp add: main_step_def split: if_splits)+
    have "length (filter unfinished (tasks s)) \<noteq> 0" using d(3) w nz by simp
    then obtain g where "g \<in> set (tasks s)" "unfinished g"
      by (auto simp: filter_empty_conv)
    then obtain i where "i < length (tasks s)" "unfinished (tasks s ! i)"
      by (auto simp: in_set_conv_nth)
    with inv obtain j s' where "task_step b s j = Some s'"
      using some_task_enabled by blast
    then have "thread_step b s (Task j) = Some s'" using nc by (simp add: thread_step_def)
    then show ?thesis by blast
  qed
qed

lemma completion_reachable:
  "fan_inv b s \<Longrightarrow> \<exists>ts s'. run b s ts = Some s' \<and> main s' = MDone"
proof (induction "steps_left b s" arbitrary: s rule: less_induct)
  case less
  show ?case
  proof (cases "main s = MDone")
    case True
    then have "run b s [] = Some s \<and> main s = MDone" by simp
    then show ?thesis by blast
  next
    case False
    with less.prems obtain t s1 where 1: "thread_step b s t = Some s1"
      using no_deadlock by blast
    from thread_step_inv [OF less.prems 1]
    have inv1: "fan_inv b s1" and "steps_left b s1 < steps_left b s" by simp_all
    from less.hyps [OF this(2) inv1] obtain ts s' where "run b s1 ts = Some s'" "main s' = MDone"
      by blast
    then have "run b s (t # ts) = Some s' \<and> main s' = MDone" using 1 by simp
    then show ?thesis by blast
  qed
qed


subsection \<open>What holds when the handler is past \<^verbatim>\<open>wg.Wait()\<close>\<close>

lemma done_all_finished:
  assumes inv: "fan_inv b s" and dn: "main s = MDone"
  shows "length (tasks s) = length (earnings b)" and "\<forall>g \<in> set (tasks s). g = GFinished"
proof -
  note d = fan_invD [OF inv]
  show "length (tasks s) = length (earnings b)" using d(2) dn by simp
  have "length (filter unfinished (tasks s)) = 0" using d(3,4) dn by simp
  then have "\<forall>g \<in> set (tasks s). \<not> unfinished g" by (simp add: filter_empty_conv)
  then show "\<forall>g \<in> set (tasks s). g = GFinished"
    by (metis unfinished.elims(3))
qed

lemma done_results:
  assumes inv: "fan_inv b s" and dn: "main s = MDone"
  shows "mset (results s) = mset (map (task_result b) [0..<length (earnings b)])"
    and "length (results s) = length (earnings b)"
proof -
  note d = fan_invD [OF inv]
  note f = done_all_finished [OF inv dn]
  from d(10) obtain order where o: "distinct order"
    "set order = {i. i < length (tasks s) \<and> appended (tasks s ! i)}"
    "results s = map (task_result b) order" by blast
  have fin: "tasks s ! i = GFinished" if "i < length (tasks s)" for i
    using f(2) nth_mem [OF that] by blast
  have "set order = {0..<length (earnings b)}"
    using o(2) f(1) fin by auto
  then have "mset order = mset [0..<length (earnings b)]"
    using o(1) by (metis distinct_upt set_upt set_eq_iff_mset_eq_distinct)
  then have "mset (map (task_result b) order) = mset (map (task_result b) [0..<length (earnings b)])"
    by (metis mset_map)
  then show m: "mset (results s) = mset (map (task_result b) [0..<length (earnings b)])"
    using o(3) by simp
  show "length (results s) = length (earnings b)"
    using m by (metis length_map length_upt mset_eq_length diff_zero)
qed

lemma in_flight_le_semaphore: "fan_inv b s \<Longrightarrow> in_flight s \<le> 5"
proof -
  assume inv: "fan_inv b s"
  have "filter is_lookup (tasks s) = filter is_lookup (filter holding (tasks s))"
    by (rule sym, simp, rule filter_cong, simp, metis holding.simps(1) is_lookup.elims(2))
  then have "in_flight s \<le> length (filter holding (tasks s))"
    by (metis in_flight_def length_filter_le)
  then show ?thesis using fan_invD(6,7) [OF inv] by simp
qed


lemma steps_left_initial: "steps_left b initial_fan = 9 * length (earnings b) + 2"
  by (simp add: steps_left_def initial_fan_def)

lemma run_initial_inv:
  assumes "run b initial_fan ts = Some s"
  shows "fan_inv b s" and "steps_left b s + length ts = 9 * length (earnings b) + 2"
  using run_inv [OF fan_inv_initial assms] by (simp_all add: steps_left_initial)

subsection \<open>One lookup\<close>








subsection \<open>The batch\<close>

text \<open>
  Claim C3. In every state that an execution of the fan-out reaches, whatever the
  schedule and whatever the lookups meet: the synchronisation has not failed, at most 5
  lookups are in flight, and the summary has been computed (the response built) only if
  the handler is past \<^verbatim>\<open>wg.Wait()\<close>. When the handler is past it, all N goroutines have
  been started and have finished, \<^verbatim>\<open>results\<close> has exactly N records, namely the result of
  the lookup of each event once (in the order of the appends), and the response carries
  these N results and their summary.
  Until then some thread can move, an execution has at most \<open>9 N + 2\<close> steps, and it can
  always be continued to the end: the handler returns, given that every lookup does.
\<close>

theorem fan_out_complete:
  assumes "run b initial_fan ts = Some s"
  shows "\<not> crashed s
       \<and> in_flight s \<le> 5
       \<and> (response s \<noteq> None \<longrightarrow> main s = MDone)
       \<and> (main s = MDone \<longrightarrow>
            length (results s) = length (earnings b)
          \<and> mset (results s) = mset (map (task_result b) [0..<length (earnings b)])
          \<and> length (tasks s) = length (earnings b)
          \<and> (\<forall>g \<in> set (tasks s). g = GFinished)
          \<and> response s = Some (build_response (dateStr b) (results s))
          \<and> map_option rsp_TotalTickers (response s) = Some (int (length (earnings b)))
          \<and> map_option rsp_Results (response s) = Some (results s)
          \<and> map_option rsp_Summary (response s) = Some (calculate_summary (results s)))
       \<and> (main s \<noteq> MDone \<longrightarrow> (\<exists>t s'. thread_step b s t = Some s'))
       \<and> length ts \<le> 9 * length (earnings b) + 2
       \<and> (\<exists>us s'. run b s us = Some s' \<and> main s' = MDone)"
proof -
  note inv = run_initial_inv(1) [OF assms]
  note d = fan_invD [OF inv]
  have 1: "\<not> crashed s" by (rule d(1))
  have 2: "in_flight s \<le> 5" using inv by (rule in_flight_le_semaphore)
  have 3: "response s \<noteq> None \<longrightarrow> main s = MDone" using d(5) by (simp split: if_splits)
  have 4: "main s = MDone \<longrightarrow>
            length (results s) = length (earnings b)
          \<and> mset (results s) = mset (map (task_result b) [0..<length (earnings b)])
          \<and> length (tasks s) = length (earnings b)
          \<and> (\<forall>g \<in> set (tasks s). g = GFinished)
          \<and> response s = Some (build_response (dateStr b) (results s))
          \<and> map_option rsp_TotalTickers (response s) = Some (int (length (earnings b)))
          \<and> map_option rsp_Results (response s) = Some (results s)
          \<and> map_option rsp_Summary (response s) = Some (calculate_summary (results s))"
    using done_results [OF inv] done_all_finished [OF inv] d(5)
    by (simp add: build_response_def)
  have 5: "main s \<noteq> MDone \<longrightarrow> (\<exists>t s'. thread_step b s t = Some s')"
    using inv no_deadlock by blast
  have 6: "length ts \<le> 9 * length (earnings b) + 2"
    using run_initial_inv(2) [OF assms] by simp
  have 7: "\<exists>us s'. run b s us = Some s' \<and> main s' = MDone"
    using inv by (rule completion_reachable)
  show ?thesis using 1 2 3 4 5 6 7 by blast
qed

lemma sample_run:
  "\<exists>s. run sample_batch initial_fan sample_schedule = Some s \<and> main s = MDone
     \<and> map Ticker (results s) = [''MSFT'', ''AAPL'']
     \<and> map BigMoneyDirection (results s) = [''NO_DATA'', ''ERROR'']"
  by (simp add: sample_schedule_def sample_batch_def initial_fan_def thread_step_def
      main_step_def task_step_def analyzeTickerBigMoney_def new_result_def request_url_def
      down_env_def no_trades_env_def quiet_response_def sample_earning_def Let_def
      build_response_def calculate_summary_def count_direction_def)

lemma sample_run_prefix:
  "\<exists>s. run sample_batch initial_fan (take 7 sample_schedule) = Some s \<and> in_flight s = 2"
  by (simp add: sample_schedule_def sample_batch_def initial_fan_def thread_step_def
      main_step_def task_step_def in_flight_def sample_earning_def)

theorem fan_out_complete_witness:
  "\<exists>s. run sample_batch initial_fan sample_schedule = Some s
      \<and> main s = MDone
      \<and> length (results s) = 2
      \<and> map Ticker (results s) = [''MSFT'', ''AAPL'']
      \<and> map_option rsp_TotalTickers (response s) = Some 2
      \<and> in_flight s \<le> 5"
proof -
  from sample_run obtain s where
    r: "run sample_batch initial_fan sample_schedule = Some s" and m: "main s = MDone"
    and t: "map Ticker (results s) = [''MSFT'', ''AAPL'']"
    by auto
  have "length (earnings sample_batch) = 2" by (simp add: sample_batch_def)
  then show ?thesis
    using fan_out_complete [OF r] r m t by auto
qed



end
